theory Spec2Isabelle
  imports Main "HOL-Library.Multiset"
begin

section \<open>JavaScript values used by \<open>mavenUtils.ts\<close>\<close>

text \<open>
  Strings are lists of characters. The source works on UTF-16 code units; the model
  covers the ASCII range (tree glyphs, coordinates and tags of a Maven report are ASCII).
  An index that can be \<open>-1\<close> in the source (\<open>search\<close>, \<open>indexOf\<close>, \<open>findIndex\<close>) is an
  \<open>int\<close>; a value that can be \<open>undefined\<close> is an \<open>option\<close>.
\<close>

definition LF :: char where
  "LF = CHR 0x0A"

definition CR :: char where
  "CR = CHR 0x0D"

definition BACKSLASH :: char where
  "BACKSLASH = CHR 0x5C"

text \<open>The class \<open>\w\<close> of a JavaScript regular expression: letters, digits and the underscore.\<close>

definition isAlnum :: "char \<Rightarrow> bool" where
  "isAlnum c = (c \<in> set ''abcdefghijklmnopqrstuvwxyzABCDEFGHIJKLMNOPQRSTUVWXYZ0123456789'')"

definition isWordChar :: "char \<Rightarrow> bool" where
  "isWordChar c = (isAlnum c \<or> c = CHR ''_'')"

text \<open>White space and line terminators that \<open>String.prototype.trim\<close> removes (ASCII range).\<close>

definition isSpace :: "char \<Rightarrow> bool" where
  "isSpace c = (c \<in> set [CHR '' '', CHR 0x09, CHR 0x0A, CHR 0x0B, CHR 0x0C, CHR 0x0D])"

definition trim :: "string \<Rightarrow> string" where
  "trim s = rev (dropWhile isSpace (rev (dropWhile isSpace s)))"

definition toLowerChar :: "char \<Rightarrow> char" where
  "toLowerChar c =
     (case map_of (zip ''ABCDEFGHIJKLMNOPQRSTUVWXYZ'' ''abcdefghijklmnopqrstuvwxyz'') c of
        Some l \<Rightarrow> l
      | None \<Rightarrow> c)"

definition toLowerCase :: "string \<Rightarrow> string" where
  "toLowerCase s = map toLowerChar s"

text \<open>\<open>Array.prototype.findIndex\<close>: the first index whose element satisfies \<open>P\<close>, else \<open>-1\<close>.\<close>

fun findIndex :: "('a \<Rightarrow> bool) \<Rightarrow> 'a list \<Rightarrow> int" where
  "findIndex P [] = -1"
| "findIndex P (x # xs) =
     (if P x then 0 else (let i = findIndex P xs in if i < 0 then -1 else i + 1))"

text \<open>\<open>s.search(/\w/)\<close>: the index of the first word character, \<open>-1\<close> when there is none.\<close>

definition search_w :: "string \<Rightarrow> int" where
  "search_w s = findIndex isWordChar s"

text \<open>\<open>s.slice(start)\<close>: a negative start counts from the end, and both ends are clamped.\<close>

definition slice_from :: "string \<Rightarrow> int \<Rightarrow> string" where
  "slice_from s start =
     (let n = int (length s);
          k = (if start < 0 then max (n + start) 0 else min start n)
      in drop (nat k) s)"

text \<open>\<open>xs[i]\<close>: \<open>undefined\<close> outside the array (also for a negative index).\<close>

definition js_index :: "'a list \<Rightarrow> int \<Rightarrow> 'a option" where
  "js_index xs i = (if 0 \<le> i \<and> i < int (length xs) then Some (xs ! nat i) else None)"

text \<open>String conversion of a value that is a string or \<open>undefined\<close> (\<open>'a' + undefined\<close>,
  \<open>s.includes(undefined)\<close>).\<close>

definition js_str :: "string option \<Rightarrow> string" where
  "js_str v = (case v of None \<Rightarrow> ''undefined'' | Some s \<Rightarrow> s)"

text \<open>\<open>s.split(sep)\<close> for a one-character separator: never the empty array.\<close>

fun splitOn :: "char \<Rightarrow> string \<Rightarrow> string list" where
  "splitOn sep [] = [[]]"
| "splitOn sep (c # cs) =
     (if c = sep then [] # splitOn sep cs
      else (case splitOn sep cs of w # ws \<Rightarrow> (c # w) # ws | [] \<Rightarrow> [[c]]))"

text \<open>\<open>s.split(/\r?\n/)\<close>: a line feed, with the carriage return before it when there is one.\<close>

fun split_rn :: "string \<Rightarrow> string list" where
  "split_rn [] = [[]]"
| "split_rn [c] = (if c = LF then [[], []] else [[c]])"
| "split_rn (c # d # cs) =
     (if c = LF then [] # split_rn (d # cs)
      else if c = CR \<and> d = LF then [] # split_rn cs
      else (case split_rn (d # cs) of w # ws \<Rightarrow> (c # w) # ws | [] \<Rightarrow> [[c]]))"

text \<open>\<open>s.split(/\r\n|\r|\n/)\<close>.\<close>

fun split_newline :: "string \<Rightarrow> string list" where
  "split_newline [] = [[]]"
| "split_newline [c] = (if c = LF \<or> c = CR then [[], []] else [[c]])"
| "split_newline (c # d # cs) =
     (if c = CR \<and> d = LF then [] # split_newline cs
      else if c = CR \<or> c = LF then [] # split_newline (d # cs)
      else (case split_newline (d # cs) of w # ws \<Rightarrow> (c # w) # ws | [] \<Rightarrow> [[c]]))"

text \<open>\<open>xs.join(sep)\<close>.\<close>

fun join :: "string \<Rightarrow> string list \<Rightarrow> string" where
  "join sep [] = []"
| "join sep [x] = x"
| "join sep (x # y # ys) = x @ sep @ join sep (y # ys)"

text \<open>\<open>s.startsWith(p)\<close>, comparing character by character.\<close>

fun startsWith :: "string \<Rightarrow> string \<Rightarrow> bool" where
  "startsWith s [] = True"
| "startsWith [] (p # ps) = False"
| "startsWith (c # cs) (p # ps) = (if c = p then startsWith cs ps else False)"

text \<open>\<open>s.indexOf(p)\<close>: the first index at which \<open>p\<close> occurs in \<open>s\<close>, else \<open>-1\<close>.\<close>

fun indexOf :: "string \<Rightarrow> string \<Rightarrow> int" where
  "indexOf [] p = (if p = [] then 0 else -1)"
| "indexOf (c # cs) p =
     (if startsWith (c # cs) p then 0
      else (let i = indexOf cs p in if i < 0 then -1 else i + 1))"

definition includes_str :: "string \<Rightarrow> string \<Rightarrow> bool" where
  "includes_str s p = (0 \<le> indexOf s p)"

section \<open>Identity parser\<close>

text \<open>
  \<open>getDependencyInfo\<close> (lines 284-289). \<open>result[0]\<close> always exists; \<open>result[1]\<close> and
  \<open>result[result.length - 2]\<close> are \<open>undefined\<close> when the line has no colon.
\<close>

definition getDependencyInfo :: "string \<Rightarrow> string \<times> string option \<times> string option" where
  "getDependencyInfo rawDependency =
     (let result = splitOn CHR '':'' rawDependency;
          first = (case result of [] \<Rightarrow> [] | r0 # _ \<Rightarrow> r0);
          startIndex = search_w first
      in (slice_from first startIndex,
          js_index result 1,
          js_index result (int (length result) - 2)))"

text \<open>\<open>getProjectInfo\<close> (lines 276-278): \<open>rawDependency.replace(/\s/g, '')\<close> drops every
  white-space character.\<close>

definition getProjectInfo :: "string \<Rightarrow> string \<times> string option \<times> string option" where
  "getProjectInfo rawDependency =
     getDependencyInfo (filter (\<lambda>c. \<not> isSpace c) rawDependency @ '':dummyScope'')"

section \<open>Dependency attribution filter\<close>

text \<open>
  \<open>filterParentDependencies\<close> (lines 293-303) builds, for every child line, the regular
  expression \<open>new RegExp(`^.*${childDep.slice(index)}.*$`, 'mg')\<close> and keeps the line when
  \<open>rawParentDep.match(regex)\<close> is \<open>null\<close>. The text of the child line is placed in the
  pattern as it is. \<open>RegExp\<close> belongs to the JavaScript runtime, so the filter takes the
  runtime's matcher as a parameter: \<open>matchMG pattern text\<close> is \<open>Inl\<close> when the constructor
  throws and otherwise tells whether \<open>text.match\<close> finds a match with the flags \<open>mg\<close>.
\<close>

datatype RegExpError = SyntaxError | OutsideFragment

type_synonym regexp_matcher = "string \<Rightarrow> string \<Rightarrow> RegExpError + bool"

text \<open>\<open>Array.prototype.filter\<close> with a callback that can throw: the first exception ends the
  call.\<close>

fun filter_throwing :: "('a \<Rightarrow> 'e + bool) \<Rightarrow> 'a list \<Rightarrow> 'e + 'a list" where
  "filter_throwing p [] = Inr []"
| "filter_throwing p (x # xs) =
     (case p x of
        Inl e \<Rightarrow> Inl e
      | Inr keep \<Rightarrow>
          (case filter_throwing p xs of
             Inl e \<Rightarrow> Inl e
           | Inr ys \<Rightarrow> Inr (if keep then x # ys else ys)))"

text \<open>The callback of the filter: \<open>!!rawParentDep.match(regex) === false\<close>.\<close>

definition notInParent :: "regexp_matcher \<Rightarrow> string \<Rightarrow> string \<Rightarrow> RegExpError + bool" where
  "notInParent matchMG rawParentDep childDep =
     (let index = search_w childDep;
          regex = ''^.*'' @ slice_from childDep index @ ''.*$''
      in (case matchMG regex rawParentDep of
            Inl e \<Rightarrow> Inl e
          | Inr found \<Rightarrow> Inr (\<not> found)))"

text \<open>The result is \<open>Inr None\<close> for the \<open>undefined\<close> that the bare \<open>return\<close> gives. An empty
  parent array is truthy in JavaScript and takes the first branch.\<close>

definition filterParentDependencies ::
  "regexp_matcher \<Rightarrow> string list \<Rightarrow> string list option \<Rightarrow> RegExpError + string list option" where
  "filterParentDependencies matchMG childDependencies parentDeps =
     (case parentDeps of
        Some deps \<Rightarrow>
          (let rawParentDep = join '' '' deps
           in (case filter_throwing (notInParent matchMG rawParentDep) childDependencies of
                 Inl e \<Rightarrow> Inl e
               | Inr kept \<Rightarrow> Inr (Some kept)))
      | None \<Rightarrow> Inr None)"

subsection \<open>A matcher for the patterns of Maven coordinates\<close>

text \<open>
  A reference matcher for the part of the pattern language that coordinates made of letters,
  digits, \<open>:\<close>, \<open>-\<close>, \<open>_\<close> and \<open>.\<close> produce: literal characters, the wildcard \<open>.\<close> (any
  character but a line terminator), \<open>.*\<close>, and the assertions \<open>^\<close> and \<open>$\<close>, which with the
  flag \<open>m\<close> hold at the start and end of every line. Any other metacharacter puts the pattern
  outside this fragment, and the matcher answers \<open>Inl OutsideFragment\<close>.
\<close>

datatype atom = BOL | EOL | AnyChar | AnyStar | Lit char

definition isMetaChar :: "char \<Rightarrow> bool" where
  "isMetaChar c = (c \<in> set [BACKSLASH, CHR ''^'', CHR ''$'', CHR ''.'', CHR ''*'', CHR ''+'',
     CHR ''?'', CHR ''('', CHR '')'', CHR ''['', CHR '']'', CHR ''{'', CHR ''}'', CHR ''|''])"

fun parsePattern :: "string \<Rightarrow> atom list option" where
  "parsePattern [] = Some []"
| "parsePattern [c] =
     (if c = CHR ''^'' then Some [BOL]
      else if c = CHR ''$'' then Some [EOL]
      else if c = CHR ''.'' then Some [AnyChar]
      else if isMetaChar c then None
      else Some [Lit c])"
| "parsePattern (c # d # cs) =
     (if c = CHR ''.'' \<and> d = CHR ''*'' then map_option ((#) AnyStar) (parsePattern cs)
      else if c = CHR ''^'' then map_option ((#) BOL) (parsePattern (d # cs))
      else if c = CHR ''$'' then map_option ((#) EOL) (parsePattern (d # cs))
      else if c = CHR ''.'' then map_option ((#) AnyChar) (parsePattern (d # cs))
      else if isMetaChar c then None
      else map_option ((#) (Lit c)) (parsePattern (d # cs)))"

definition isLineTerminator :: "char \<Rightarrow> bool" where
  "isLineTerminator c = (c = LF \<or> c = CR)"

text \<open>\<open>matchHere atoms prev s\<close>: the atoms match a prefix of \<open>s\<close>, where \<open>prev\<close> is the
  character before \<open>s\<close> in the text (\<open>None\<close> at the start of the text).\<close>

fun matchHere :: "atom list \<Rightarrow> char option \<Rightarrow> string \<Rightarrow> bool" where
  "matchHere [] prev s = True"
| "matchHere (BOL # atoms) prev s =
     (if (case prev of None \<Rightarrow> True | Some p \<Rightarrow> isLineTerminator p)
      then matchHere atoms prev s else False)"
| "matchHere (EOL # atoms) prev s =
     (if (case s of [] \<Rightarrow> True | c # _ \<Rightarrow> isLineTerminator c)
      then matchHere atoms prev s else False)"
| "matchHere (AnyChar # atoms) prev [] = False"
| "matchHere (AnyChar # atoms) prev (c # cs) =
     (if isLineTerminator c then False else matchHere atoms (Some c) cs)"
| "matchHere (Lit x # atoms) prev [] = False"
| "matchHere (Lit x # atoms) prev (c # cs) =
     (if c = x then matchHere atoms (Some c) cs else False)"
| "matchHere (AnyStar # atoms) prev [] = matchHere atoms prev []"
| "matchHere (AnyStar # atoms) prev (c # cs) =
     (if matchHere atoms prev (c # cs) then True
      else if isLineTerminator c then False
      else matchHere (AnyStar # atoms) (Some c) cs)"

text \<open>A match may start at any position of the text (\<open>String.prototype.match\<close> searches).\<close>

fun matchFrom :: "atom list \<Rightarrow> char option \<Rightarrow> string \<Rightarrow> bool" where
  "matchFrom atoms prev [] = matchHere atoms prev []"
| "matchFrom atoms prev (c # cs) =
     (if matchHere atoms prev (c # cs) then True else matchFrom atoms (Some c) cs)"

definition regexp_mg_match :: regexp_matcher where
  "regexp_mg_match pattern txt =
     (case parsePattern pattern of
        None \<Rightarrow> Inl OutsideFragment
      | Some atoms \<Rightarrow> Inr (matchFrom atoms None txt))"

section \<open>Descriptor position locator\<close>

text \<open>
  \<open>vscode.Position\<close> and the two members of \<open>vscode.TextDocument\<close> that the source calls.
  The document is an interface of the editor, so \<open>positionAt\<close> is a member of the record.
\<close>

record Position =
  line :: int
  character :: int

record TextDocument =
  getText :: string
  positionAt :: "int \<Rightarrow> Position"

text \<open>
  A node of the dependency tree: its component id (\<open>generalInfo.getComponentId()\<close>), whether
  it is an instance of \<open>MavenTreeNode\<close>, and its parent (\<open>undefined\<close> at the top).
\<close>

datatype DependenciesTreeNode =
  DependenciesTreeNode (componentId: string) (isMavenTreeNode: bool)
    (parent: "DependenciesTreeNode option")

text \<open>
  \<open>pomXmlContent.match(/<dependency>(.|\s)*?<\/dependency>/gi)\<close>: \<open>(.|\s)\<close> matches every
  character and the star is lazy, so a match runs from an opening tag to the first closing
  tag after it, and the search goes on behind the match. Both tags have the flag \<open>i\<close>. The
  opening tag has 12 characters and the closing tag 13.
\<close>

fun startsWithCI :: "string \<Rightarrow> string \<Rightarrow> bool" where
  "startsWithCI s [] = True"
| "startsWithCI [] (p # ps) = False"
| "startsWithCI (c # cs) (p # ps) =
     (if toLowerChar c = toLowerChar p then startsWithCI cs ps else False)"

fun indexOfCI :: "string \<Rightarrow> string \<Rightarrow> nat option" where
  "indexOfCI [] p = (if p = [] then Some 0 else None)"
| "indexOfCI (c # cs) p =
     (if startsWithCI (c # cs) p then Some 0 else map_option Suc (indexOfCI cs p))"

function dependencyBlocks :: "string \<Rightarrow> string list" where
  "dependencyBlocks [] = []"
| "dependencyBlocks (c # cs) =
     (if startsWithCI (c # cs) ''<dependency>'' then
        (case indexOfCI (drop 12 (c # cs)) ''</dependency>'' of
           Some k \<Rightarrow> take (k + 25) (c # cs) # dependencyBlocks (drop (k + 25) (c # cs))
         | None \<Rightarrow> dependencyBlocks cs)
      else dependencyBlocks cs)"
  by pat_completeness auto
termination
  by (relation "measure length") auto

text \<open>\<open>[groupId, artifactId, version] = componentId.toLowerCase().split(':')\<close>; a missing
  field is \<open>undefined\<close>, which \<open>includes\<close> and \<open>+\<close> turn into the text \<open>undefined\<close>.\<close>

definition gavFields :: "string \<Rightarrow> string \<times> string \<times> string" where
  "gavFields cid =
     (let ids = splitOn CHR '':'' (toLowerCase cid)
      in (js_str (js_index ids 0), js_str (js_index ids 1), js_str (js_index ids 2)))"

text \<open>The blocks that pass \<open>filter(group => group.includes(groupId) && group.includes(artifactId))\<close>.\<close>

definition dependencyMatch :: "string \<Rightarrow> string \<Rightarrow> string list" where
  "dependencyMatch pomXmlContent cid =
     (case gavFields cid of
        (groupId, artifactId, version) \<Rightarrow>
          filter (\<lambda>group. includes_str group groupId \<and> includes_str group artifactId)
            (dependencyBlocks pomXmlContent))"

text \<open>The loop of lines 55-68 over the non-blank lines of the first matching block.\<close>

definition dependencySpans :: "TextDocument \<Rightarrow> string \<Rightarrow> string \<Rightarrow> Position list" where
  "dependencySpans document cid block =
     (case gavFields cid of
        (groupId, artifactId, version) \<Rightarrow>
          (let startIndex = positionAt document (indexOf (getText document) block);
               arr = filter (\<lambda>ln. trim ln \<noteq> []) (split_rn block)
           in concat (map (\<lambda>(i, ln).
                 (let depInfo = toLowerCase (trim ln)
                  in if depInfo = ''<groupid>'' @ groupId @ ''</groupid>''
                        \<or> depInfo = ''<artifactid>'' @ artifactId @ ''</artifactid>''
                        \<or> depInfo = ''<version>'' @ version @ ''</version>''
                     then [\<lparr>line = line startIndex + int i, character = indexOf ln ''<''\<rparr>,
                           \<lparr>line = line startIndex + int i, character = int (length ln)\<rparr>]
                     else []))
               (enumerate 0 arr))))"

text \<open>\<open>getDependencyPos\<close> (lines 41-74). The recursive call passes the same \<open>document\<close> and
  the parent node.\<close>

fun getDependencyPos :: "TextDocument \<Rightarrow> DependenciesTreeNode option \<Rightarrow> Position list" where
  "getDependencyPos document None = []"
| "getDependencyPos document (Some (DependenciesTreeNode cid isMaven par)) =
     (case dependencyMatch (getText document) cid of
        block # _ \<Rightarrow> dependencySpans document cid block
      | [] \<Rightarrow> if \<not> isMaven then getDependencyPos document par else [])"

text \<open>
  A document over a text, for evaluating the functions above: \<open>positionAt\<close> counts the line
  breaks (\<open>\n\<close>, \<open>\r\n\<close>, \<open>\r\<close>) before the offset, as the editor does.
\<close>

fun positionFrom :: "string \<Rightarrow> nat \<Rightarrow> int \<Rightarrow> int \<Rightarrow> Position" where
  "positionFrom s 0 l c = \<lparr>line = l, character = c\<rparr>"
| "positionFrom [] (Suc n) l c = \<lparr>line = l, character = c\<rparr>"
| "positionFrom [x] (Suc n) l c =
     (if x = LF \<or> x = CR then \<lparr>line = l + 1, character = 0\<rparr> else \<lparr>line = l, character = c + 1\<rparr>)"
| "positionFrom (x # y # s) (Suc n) l c =
     (if x = LF \<or> (x = CR \<and> y \<noteq> LF) then positionFrom (y # s) n (l + 1) 0
      else positionFrom (y # s) n l (c + 1))"

definition textDocument :: "string \<Rightarrow> TextDocument" where
  "textDocument txt = \<lparr>getText = txt, positionAt = (\<lambda>offset. positionFrom txt (nat offset) 0 0)\<rparr>"

text \<open>
  An example: a descriptor that declares \<open>org.p:lib:2\<close>, the project node of that descriptor,
  the node of the declared dependency, and the node of \<open>org.q:zeta:7\<close>, which \<open>org.p:lib:2\<close>
  brings in and which no descriptor declares.
\<close>

definition example_pom :: string where
  "example_pom =
     ''<dependency>'' @ [LF] @
     ''  <groupId>org.p</groupId>'' @ [LF] @
     ''  <artifactId>lib</artifactId>'' @ [LF] @
     ''  <version>2</version>'' @ [LF] @
     ''</dependency>''"

definition example_project :: DependenciesTreeNode where
  "example_project = DependenciesTreeNode ''g:proj:1'' True None"

definition example_direct :: DependenciesTreeNode where
  "example_direct = DependenciesTreeNode ''org.p:lib:2'' False (Some example_project)"

definition example_transitive :: DependenciesTreeNode where
  "example_transitive = DependenciesTreeNode ''org.q:zeta:7'' False (Some example_direct)"

section \<open>Descriptor locator\<close>

text \<open>
  \<open>locatePomXmls\<close> (lines 81-94). A \<open>vscode.Uri\<close> is held by its string form, which is the
  key under which \<open>Collections.Set\<close> stores an element; \<open>fsPath\<close> maps it to the file-system
  path. The file search of the editor (\<open>findFiles\<close>, one awaited call per workspace folder)
  and \<open>String.prototype.localeCompare\<close> are parameters.
\<close>

type_synonym Uri = string



text \<open>\<open>Array.prototype.sort\<close> with a comparator: a stable sort, here by insertion. An element
  goes before the first element it does not compare greater than.\<close>

fun insertSorted :: "('a \<Rightarrow> 'a \<Rightarrow> int) \<Rightarrow> 'a \<Rightarrow> 'a list \<Rightarrow> 'a list" where
  "insertSorted cmp x [] = [x]"
| "insertSorted cmp x (y # ys) =
     (if cmp x y \<le> 0 then x # y # ys else y # insertSorted cmp x ys)"

definition arraySort :: "('a \<Rightarrow> 'a \<Rightarrow> int) \<Rightarrow> 'a list \<Rightarrow> 'a list" where
  "arraySort cmp xs = foldr (insertSorted cmp) xs []"









section \<open>GAV resolver\<close>

text \<open>\<open>path.dirname\<close> of Node.js (POSIX): the path up to the last slash before the last
  segment; \<open>.\<close> or \<open>/\<close> when there is none.\<close>

fun dirname :: "string \<Rightarrow> string" where
  "dirname [] = ''.''"
| "dirname (c # cs) =
     (let hasRoot = (c = CHR ''/'');
          end = length (dropWhile (\<lambda>x. x \<noteq> CHR ''/'') (dropWhile (\<lambda>x. x = CHR ''/'') (rev cs)))
      in if end = 0 then (if hasRoot then ''/'' else ''.'')
         else if hasRoot \<and> end = 1 then ''//''
         else take end (c # cs))"

text \<open>
  \<open>ScanUtils.executeCmd\<close> runs \<open>mvn\<close> in a directory and returns its output or throws. The two
  commands of this file are \<open>mvn org.apache.maven.plugins:maven-install-plugin:2.5.2:install-file
  -Dfile=...\<close> and \<open>mvn com.jfrog.ide:maven-gav-reader:gav -q\<close>. The tool is a parameter; it is
  given the invocations made before, so its answer may differ from one call to the next.
  \<open>JSON.parse\<close> with the reads of \<open>pomPath\<close>, \<open>gav\<close> and \<open>parentGav\<close> is a parameter as well:
  \<open>None\<close> when it throws.
\<close>

datatype ExecError = ExecError

datatype MvnCommand = InstallGavReader | ReadGav

type_synonym invocation = "MvnCommand \<times> string option"

type_synonym executeCmd = "invocation list \<Rightarrow> invocation \<Rightarrow> ExecError + string"

type_synonym jsonParse = "string \<Rightarrow> (string \<times> string \<times> string) option"

record ResolverState =
  pomIdCache :: "string \<rightharpoonup> string \<times> string"
  invocations :: "invocation list"

text \<open>\<open>mvnGav.replace(/\\/g, '\\\\')\<close>.\<close>

definition escapeBackslash :: "string \<Rightarrow> string" where
  "escapeBackslash mvnGav =
     concat (map (\<lambda>c. if c = BACKSLASH then [BACKSLASH, BACKSLASH] else [c]) mvnGav)"

text \<open>The lines handed to \<open>forEach\<close>: split, the empty ones dropped, backslashes escaped.\<close>

definition gavLines :: "string \<Rightarrow> string list" where
  "gavLines mvnGavRes =
     map escapeBackslash (filter (\<lambda>mvnGav. mvnGav \<noteq> []) (split_newline mvnGavRes))"

text \<open>The \<open>forEach\<close> of lines 111-117: every decoded line is stored at once; a line that
  fails to decode ends the loop (\<open>False\<close>: the exception reaches the \<open>catch\<close>).\<close>

fun populateCache ::
  "jsonParse \<Rightarrow> string list \<Rightarrow> (string \<rightharpoonup> string \<times> string)
     \<Rightarrow> (string \<rightharpoonup> string \<times> string) \<times> bool" where
  "populateCache jsonParse [] cache = (cache, True)"
| "populateCache jsonParse (mvnGav # rest) cache =
     (case jsonParse mvnGav of
        None \<Rightarrow> (cache, False)
      | Some (pomXmlPath, gav, parentGav) \<Rightarrow>
          populateCache jsonParse rest (cache(pomXmlPath \<mapsto> (gav, parentGav))))"

text \<open>\<open>getPomDetails\<close> (lines 99-127); the log messages are left out.\<close>

definition getPomDetails ::
  "executeCmd \<Rightarrow> jsonParse \<Rightarrow> string \<Rightarrow> ResolverState \<Rightarrow> (string \<times> string) \<times> ResolverState" where
  "getPomDetails executeCmd jsonParse pathToPomXml st =
     (case pomIdCache st pathToPomXml of
        Some gav \<Rightarrow> (gav, st)
      | None \<Rightarrow>
          (let call = (ReadGav, Some (dirname pathToPomXml));
               st1 = st\<lparr>invocations := invocations st @ [call]\<rparr>
           in (case executeCmd (invocations st) call of
                 Inl error \<Rightarrow> (([], []), st1)
               | Inr mvnGavRes \<Rightarrow>
                   (case populateCache jsonParse (gavLines mvnGavRes) (pomIdCache st) of
                      (cache, completed) \<Rightarrow>
                        (if completed
                         then (case cache pathToPomXml of Some gav \<Rightarrow> gav | None \<Rightarrow> ([], []))
                         else ([], []),
                         st1\<lparr>pomIdCache := cache\<rparr>)))))"

text \<open>
  For evaluating examples: a decoder for lines of the exact form
  \<open>{"pomPath":"P","gav":"G","parentGav":"Q"}\<close> with no escape sequence in the three texts, and
  the lines themselves.
\<close>

definition DQ :: char where
  "DQ = CHR 0x22"

definition decodeGavLine :: jsonParse where
  "decodeGavLine mvnGav =
     (case splitOn DQ mvnGav of
        [a, k1, c1, p, c2, k2, c3, g, c4, k3, c5, q, z] \<Rightarrow>
          (if a = ''{'' \<and> k1 = ''pomPath'' \<and> c1 = '':'' \<and> c2 = '','' \<and> k2 = ''gav''
              \<and> c3 = '':'' \<and> c4 = '','' \<and> k3 = ''parentGav'' \<and> c5 = '':'' \<and> z = ''}''
           then Some (p, g, q) else None)
      | _ \<Rightarrow> None)"

definition gavLine :: "string \<Rightarrow> string \<Rightarrow> string \<Rightarrow> string" where
  "gavLine p g q =
     ''{'' @ [DQ] @ ''pomPath'' @ [DQ] @ '':'' @ [DQ] @ p @ [DQ] @ '','' @
     [DQ] @ ''gav'' @ [DQ] @ '':'' @ [DQ] @ g @ [DQ] @ '','' @
     [DQ] @ ''parentGav'' @ [DQ] @ '':'' @ [DQ] @ q @ [DQ] @ ''}''"

section \<open>Prototype tree builder\<close>

text \<open>
  A node of the prototype tree (class \<open>PomTree\<close> of \<open>pomTree.ts\<close>): its GAV, the directory of
  its descriptor (empty while no descriptor was seen for it), the GAV of its parent (empty when
  it has none) and its children. Every node object is held in one place, the array of roots or
  the children of one node: \<open>buildPrototypePomTree\<close> inserts a node only after taking it out
  of the roots or creating it. So a forest is a list of trees, and a change made to a node
  through a reference is a change at its place in the forest.
\<close>

datatype PomTree =
  PomTree (pomGav: string) (pomPath: string) (parentGav: string) (children: "PomTree list")

text \<open>Modelled from the spec: the constructor of \<open>PomTree\<close>, which is not in this file. A new
  node has the given identity, no descriptor directory, no parent identity and no children.\<close>

definition newPomTree :: "string \<Rightarrow> PomTree" where
  "newPomTree gav = PomTree gav [] [] []"

text \<open>Modelled from the spec: \<open>PomTree.addChild\<close>, which is not in this file. The child is
  appended to the children of the node.\<close>

definition addChild :: "PomTree \<Rightarrow> PomTree \<Rightarrow> PomTree" where
  "addChild parentNode node =
     PomTree (pomGav parentNode) (pomPath parentNode) (parentGav parentNode)
       (children parentNode @ [node])"

text \<open>Modelled from the spec: \<open>PomTree.deepSearch\<close>, which is not in this file. The search is
  recursive and depth-first: the node itself, then its children from left to right.
  \<open>getPrototypeNode\<close> (lines 259-267) runs it over the roots in order.\<close>

fun deepSearch :: "PomTree \<Rightarrow> string \<Rightarrow> PomTree option"
  and getPrototypeNode :: "PomTree list \<Rightarrow> string \<Rightarrow> PomTree option" where
  "deepSearch (PomTree g p pg cs) gav =
     (if g = gav then Some (PomTree g p pg cs) else getPrototypeNode cs gav)"
| "getPrototypeNode [] gav = None"
| "getPrototypeNode (prototypeTree # rest) gav =
     (case deepSearch prototypeTree gav of
        Some node \<Rightarrow> Some node
      | None \<Rightarrow> getPrototypeNode rest gav)"

text \<open>\<open>parentNode.addChild(node)\<close> for the node that \<open>getPrototypeNode\<close> returned: the child is
  appended at the place of that node, the first one in depth-first order with the identity.\<close>

fun addChildAt :: "string \<Rightarrow> PomTree \<Rightarrow> PomTree \<Rightarrow> PomTree"
  and addChildAtFirst :: "string \<Rightarrow> PomTree \<Rightarrow> PomTree list \<Rightarrow> PomTree list" where
  "addChildAt gav node (PomTree g p pg cs) =
     (if g = gav then addChild (PomTree g p pg cs) node
      else PomTree g p pg (addChildAtFirst gav node cs))"
| "addChildAtFirst gav node [] = []"
| "addChildAtFirst gav node (t # ts) =
     (case deepSearch t gav of
        Some found \<Rightarrow> addChildAt gav node t # ts
      | None \<Rightarrow> t # addChildAtFirst gav node ts)"

text \<open>\<open>searchPomGav\<close> (lines 269-271): \<open>findIndex\<close> over the array of roots.\<close>

definition searchPomGav :: "PomTree list \<Rightarrow> string \<Rightarrow> int" where
  "searchPomGav pomTreeArray gav = findIndex (\<lambda>pomTree. pomGav pomTree = gav) pomTreeArray"

text \<open>\<open>addPrototypeNode\<close> (lines 235-248).\<close>

definition addPrototypeNode :: "PomTree list \<Rightarrow> PomTree \<Rightarrow> PomTree list" where
  "addPrototypeNode pomArray node =
     (if parentGav node \<noteq> [] then
        (case getPrototypeNode pomArray (parentGav node) of
           Some parentNode \<Rightarrow> addChildAtFirst (parentGav node) node pomArray
         | None \<Rightarrow> pomArray @ [addChild (newPomTree (parentGav node)) node])
      else pomArray @ [node])"

text \<open>The body of the \<open>forEach\<close> (lines 201-213) for a descriptor path and the pair that
  \<open>getPomDetails\<close> returned for it.\<close>

definition placePom :: "PomTree list \<Rightarrow> string \<times> string \<times> string \<Rightarrow> PomTree list" where
  "placePom prototypeTree resolved =
     (case resolved of
        (fsPath, gav, parentGav') \<Rightarrow>
          (if gav \<noteq> [] then
             (let index = searchPomGav prototypeTree gav;
                  currNode = (if index > -1 then prototypeTree ! nat index else newPomTree gav);
                  spliced = (if index > -1
                             then take (nat index) prototypeTree @ drop (Suc (nat index)) prototypeTree
                             else prototypeTree)
              in addPrototypeNode spliced
                   (PomTree (pomGav currNode) (dirname fsPath) parentGav' (children currNode)))
           else prototypeTree))"

text \<open>The loop of lines 217-222. A removed root leaves the array at index \<open>i\<close>, its children
  are pushed at the end, and \<open>i\<close> goes up by one.\<close>

function removeRootless :: "nat \<Rightarrow> PomTree list \<Rightarrow> PomTree list" where
  "removeRootless i prototypeTree =
     (if i < length prototypeTree then
        (if pomPath (prototypeTree ! i) = []
         then removeRootless (Suc i)
                (take i prototypeTree @ drop (Suc i) prototypeTree @ children (prototypeTree ! i))
         else removeRootless (Suc i) prototypeTree)
      else prototypeTree)"
  by pat_completeness auto

termination removeRootless
proof (relation "measure (\<lambda>(i, f). size_list size (drop i f))", goal_cases)
  case 1
  show ?case by simp
next
  case (2 i f)
  have drop_le: "size_list size (drop n xs) \<le> size_list size xs" for n and xs :: "PomTree list"
  proof (induction xs arbitrary: n)
    case Nil
    then show ?case by simp
  next
    case (Cons a xs)
    show ?case
    proof (cases n)
      case 0
      then show ?thesis by simp
    next
      case (Suc m)
      with Cons [of m] show ?thesis by simp
    qed
  qed
  have root: "size (f ! i) = Suc (size_list size (children (f ! i)))"
    by (cases "f ! i") simp
  from 2(1) have "drop (Suc i) (take i f @ drop (Suc i) f @ children (f ! i))
          = drop 1 (drop (Suc i) f @ children (f ! i))"
    by simp
  also have "size_list size \<dots> \<le> size_list size (drop (Suc i) f @ children (f ! i))"
    by (rule drop_le)
  also have "\<dots> = size_list size (drop (Suc i) f) + size_list size (children (f ! i))"
    by simp
  also have "\<dots> < size_list size (f ! i # drop (Suc i) f)"
    using root by simp
  also from 2(1) have "f ! i # drop (Suc i) f = drop i f"
    by (simp add: Cons_nth_drop_Suc)
  finally show ?case
    by (simp only: in_measure prod.case)
next
  case (3 i f)
  from 3(1) have "drop i f = f ! i # drop (Suc i) f"
    by (simp add: Cons_nth_drop_Suc)
  then have "size_list size (drop (Suc i) f) < size_list size (drop i f)"
    by simp
  then show ?case
    by (simp only: in_measure prod.case)
qed

declare removeRootless.simps [simp del]

text \<open>\<open>installMavenGavReader\<close> (lines 308-311): the first command of the process; when it
  throws, so does \<open>buildPrototypePomTree\<close>.\<close>

definition installMavenGavReader :: "executeCmd \<Rightarrow> ExecError + invocation list" where
  "installMavenGavReader executeCmd =
     (case executeCmd [] (InstallGavReader, None) of
        Inl error \<Rightarrow> Inl error
      | Inr out \<Rightarrow> Inr [(InstallGavReader, None)])"

text \<open>The callback of the \<open>forEach\<close> (lines 199-214): the forest and the state of the
  resolver go from one descriptor to the next.\<close>

definition forEachPom ::
  "executeCmd \<Rightarrow> jsonParse \<Rightarrow> (Uri \<Rightarrow> string) \<Rightarrow> PomTree list \<times> ResolverState \<Rightarrow> Uri
     \<Rightarrow> PomTree list \<times> ResolverState" where
  "forEachPom executeCmd jsonParse fsPath acc pom =
     (case acc of
        (prototypeTree, st) \<Rightarrow>
          (case getPomDetails executeCmd jsonParse (fsPath pom) st of
             ((gav, parentGav'), st') \<Rightarrow>
               (placePom prototypeTree (fsPath pom, gav, parentGav'), st')))"

text \<open>The comparator of line 198.\<close>

definition byPathLength :: "(Uri \<Rightarrow> string) \<Rightarrow> Uri \<Rightarrow> Uri \<Rightarrow> int" where
  "byPathLength fsPath pomPath1 pomPath2 =
     int (length (fsPath pomPath1)) - int (length (fsPath pomPath2))"

text \<open>\<open>buildPrototypePomTree\<close> (lines 191-224). \<open>mavenGavReaderInstalled\<close> is the static flag
  at the time of the call.\<close>

definition buildPrototypePomTree ::
  "executeCmd \<Rightarrow> jsonParse \<Rightarrow> (Uri \<Rightarrow> string) \<Rightarrow> bool \<Rightarrow> Uri list \<Rightarrow> ExecError + PomTree list" where
  "buildPrototypePomTree executeCmd jsonParse fsPath mavenGavReaderInstalled pomArray =
     (case (if \<not> mavenGavReaderInstalled then installMavenGavReader executeCmd else Inr []) of
        Inl error \<Rightarrow> Inl error
      | Inr log \<Rightarrow>
          Inr (removeRootless 0
                (fst (foldl (forEachPom executeCmd jsonParse fsPath)
                        ([], \<lparr>pomIdCache = Map.empty, invocations = log\<rparr>)
                        (arraySort (byPathLength fsPath) pomArray)))))"

subsection \<open>What is observed of a forest\<close>

text \<open>The pairs (identity, descriptor directory) of all nodes of a tree and of a forest, in
  depth-first order, and the identities alone.\<close>

fun nodeLabels :: "PomTree \<Rightarrow> (string \<times> string) list"
  and forestLabels :: "PomTree list \<Rightarrow> (string \<times> string) list" where
  "nodeLabels (PomTree g p pg cs) = (g, p) # forestLabels cs"
| "forestLabels [] = []"
| "forestLabels (t # ts) = nodeLabels t @ forestLabels ts"

definition forestGavs :: "PomTree list \<Rightarrow> string list" where
  "forestGavs forest = map fst (forestLabels forest)"

text \<open>The pairs (identity of a child, identity of its parent node) of a tree and of a
  forest.\<close>

fun nodeEdges :: "PomTree \<Rightarrow> (string \<times> string) set"
  and forestEdges :: "PomTree list \<Rightarrow> (string \<times> string) set" where
  "nodeEdges (PomTree g p pg cs) = (\<lambda>c. (pomGav c, g)) ` set cs \<union> forestEdges cs"
| "forestEdges [] = {}"
| "forestEdges (t # ts) = nodeEdges t \<union> forestEdges ts"

text \<open>The pairs of a forest that belong to nodes below the roots.\<close>

definition nestedLabels :: "PomTree list \<Rightarrow> (string \<times> string) list" where
  "nestedLabels forest = concat (map (\<lambda>t. forestLabels (children t)) forest)"

text \<open>What the resolver returned during a call of \<open>buildPrototypePomTree\<close>, descriptor by
  descriptor in the order of processing: the path, the module GAV and the parent GAV.\<close>

fun resolveAll ::
  "executeCmd \<Rightarrow> jsonParse \<Rightarrow> ResolverState \<Rightarrow> string list \<Rightarrow> (string \<times> string \<times> string) list" where
  "resolveAll executeCmd jsonParse st [] = []"
| "resolveAll executeCmd jsonParse st (p # ps) =
     (case getPomDetails executeCmd jsonParse p st of
        ((gav, parentGav'), st') \<Rightarrow> (p, gav, parentGav') # resolveAll executeCmd jsonParse st' ps)"

definition resolvedPoms ::
  "executeCmd \<Rightarrow> jsonParse \<Rightarrow> (Uri \<Rightarrow> string) \<Rightarrow> bool \<Rightarrow> Uri list \<Rightarrow> (string \<times> string \<times> string) list" where
  "resolvedPoms executeCmd jsonParse fsPath mavenGavReaderInstalled pomArray =
     resolveAll executeCmd jsonParse
       \<lparr>pomIdCache = Map.empty,
          invocations = (if mavenGavReaderInstalled then [] else [(InstallGavReader, None)])\<rparr>
       (map fsPath (arraySort (byPathLength fsPath) pomArray))"

text \<open>The module GAVs that were resolved (the empty ones are skipped by the builder), and the
  pairs (module GAV, parent GAV) of the resolved descriptors that name a parent.\<close>

definition moduleGavs :: "(string \<times> string \<times> string) list \<Rightarrow> string list" where
  "moduleGavs resolved = filter (\<lambda>g. g \<noteq> []) (map (\<lambda>r. fst (snd r)) resolved)"

definition parentRelation :: "(string \<times> string \<times> string) list \<Rightarrow> (string \<times> string) set" where
  "parentRelation resolved =
     set (filter (\<lambda>e. fst e \<noteq> [] \<and> snd e \<noteq> []) (map snd resolved))"

text \<open>The invariant of the loop, for a relation \<open>R\<close> that holds the child-parent pairs and a
  set \<open>G\<close> that holds the module GAVs processed so far: identities are unique, nodes below the
  roots have a descriptor directory, a node with a descriptor directory has a processed GAV,
  and every child-parent pair of the forest is in \<open>R\<close>.\<close>

definition forestInv :: "(string \<times> string) set \<Rightarrow> string set \<Rightarrow> PomTree list \<Rightarrow> bool" where
  "forestInv R G f =
     (distinct (forestGavs f)
      \<and> (\<forall>l \<in> set (nestedLabels f). snd l \<noteq> [])
      \<and> (\<forall>l \<in> set (forestLabels f). snd l \<noteq> [] \<longrightarrow> fst l \<in> G)
      \<and> forestEdges f \<subseteq> R)"

subsection \<open>Examples\<close>

text \<open>A tool that prints the same lines wherever it runs, and the lines for some workspaces:
  a module \<open>g:a:1\<close> with its parent \<open>g:p:1\<close>, whose descriptor has the longer path; a parent
  with two descriptors that resolve to \<open>g:a:1\<close>; an output whose second line is not JSON; one
  module whose parent \<open>g:m:1\<close> has no descriptor; and two modules whose parents \<open>g:m:1\<close> and
  \<open>g:n:1\<close> have none.\<close>

definition printsLines :: "string list \<Rightarrow> executeCmd" where
  "printsLines ls = (\<lambda>log call. Inr (join [LF] ls))"

definition parentAndChild :: "string list" where
  "parentAndChild =
     [gavLine ''/w/a/pom.xml'' ''g:a:1'' ''g:p:1'', gavLine ''/w/parent/pom.xml'' ''g:p:1'' []]"

definition sameGavTwice :: "string list" where
  "sameGavTwice =
     [gavLine ''/w/pom.xml'' ''g:p:1'' [], gavLine ''/w/a/pom.xml'' ''g:a:1'' ''g:p:1'',
      gavLine ''/w/b/a/pom.xml'' ''g:a:1'' ''g:p:1'']"

definition brokenLines :: "string list" where
  "brokenLines =
     [gavLine ''/w/pom.xml'' ''g:p:1'' [], ''oops'', gavLine ''/w/a/pom.xml'' ''g:a:1'' ''g:p:1'']"

definition freshState :: ResolverState where
  "freshState = \<lparr>pomIdCache = Map.empty, invocations = []\<rparr>"

definition oneAbsentParent :: "string list" where
  "oneAbsentParent = [gavLine ''/w/a/pom.xml'' ''g:a:1'' ''g:m:1'']"

definition twoAbsentParents :: "string list" where
  "twoAbsentParents =
     [gavLine ''/w/a/pom.xml'' ''g:a:1'' ''g:m:1'', gavLine ''/w/b/pom.xml'' ''g:b:1'' ''g:n:1'']"

section \<open>Identity parser: proofs\<close>

lemma splitOn_not_Nil: "splitOn sep s \<noteq> []"
  by (induction s) (auto split: list.splits)

lemma findIndex_dropWhile:
  "\<exists>x \<in> set xs. P x \<Longrightarrow>
     0 \<le> findIndex P xs \<and> drop (nat (findIndex P xs)) xs = dropWhile (\<lambda>x. \<not> P x) xs"
proof (induction xs)
  case Nil
  then show ?case by simp
next
  case (Cons x xs)
  show ?case
  proof (cases "P x")
    case True
    then show ?thesis by simp
  next
    case False
    with Cons.prems have ex: "\<exists>x \<in> set xs. P x" by simp
    from Cons.IH [OF ex] have ge: "0 \<le> findIndex P xs"
      and dr: "drop (nat (findIndex P xs)) xs = dropWhile (\<lambda>x. \<not> P x) xs" by simp_all
    from ge have "nat (findIndex P xs + 1) = Suc (nat (findIndex P xs))" by simp
    with False ge dr show ?thesis by (simp add: Let_def)
  qed
qed

lemma findIndex_le_length: "findIndex P xs < int (length xs) \<or> xs = []"
  by (induction xs) (auto simp: Let_def)

lemma slice_from_search_w:
  assumes "\<exists>c \<in> set s. isWordChar c"
  shows "slice_from s (search_w s) = dropWhile (\<lambda>c. \<not> isWordChar c) s"
proof -
  from findIndex_dropWhile [OF assms] have ge: "0 \<le> findIndex isWordChar s"
    and dr: "drop (nat (findIndex isWordChar s)) s = dropWhile (\<lambda>c. \<not> isWordChar c) s"
    by simp_all
  from assms have "s \<noteq> []" by auto
  with findIndex_le_length [of isWordChar s] have "findIndex isWordChar s < int (length s)"
    by simp
  with ge dr show ?thesis
    by (simp add: slice_from_def search_w_def Let_def min_def)
qed

lemma dropWhile_alnum_word:
  assumes "CHR ''_'' \<notin> set (takeWhile (\<lambda>c. \<not> isAlnum c) s)"
  shows "dropWhile (\<lambda>c. \<not> isWordChar c) s = dropWhile (\<lambda>c. \<not> isAlnum c) s"
  using assms by (induction s) (auto simp: isWordChar_def)

text \<open>
  C8. On a report line with at least two colon-separated fields whose first field holds a
  word character, \<open>getDependencyInfo\<close> returns the first field from its first word
  character on (the class \<open>\w\<close>: alphanumeric or underscore), the second field and the
  second-to-last field. When no underscore stands before the first alphanumeric character
  (no tree glyph is an underscore), that is the first field from its first alphanumeric
  character on. On \<open>|  |  +- javax.mail:mail:jar:1.4:compile\<close> the result is
  \<open>(javax.mail, mail, 1.4)\<close>.
\<close>

theorem getDependencyInfo_fields:
  assumes "splitOn CHR '':'' raw = fs"
    and "2 \<le> length fs"
    and "\<exists>c \<in> set (hd fs). isWordChar c"
  shows "getDependencyInfo raw =
           (dropWhile (\<lambda>c. \<not> isWordChar c) (hd fs), Some (fs ! 1), Some (fs ! (length fs - 2)))
       \<and> (CHR ''_'' \<notin> set (takeWhile (\<lambda>c. \<not> isAlnum c) (hd fs)) \<longrightarrow>
            fst (getDependencyInfo raw) = dropWhile (\<lambda>c. \<not> isAlnum c) (hd fs))
       \<and> getDependencyInfo ''|  |  +- javax.mail:mail:jar:1.4:compile'' =
           (''javax.mail'', Some ''mail'', Some ''1.4'')"
proof -
  from assms(2) obtain f0 f1 rest where fs: "fs = f0 # f1 # rest"
    by (cases fs; cases "tl fs") auto
  from assms(2) have idx: "nat (int (length fs) - 2) = length fs - 2" by simp
  from assms(3) fs have w: "\<exists>c \<in> set f0. isWordChar c" by simp
  have main: "getDependencyInfo raw =
           (dropWhile (\<lambda>c. \<not> isWordChar c) (hd fs), Some (fs ! 1), Some (fs ! (length fs - 2)))"
    using assms(1) fs idx slice_from_search_w [OF w]
    by (simp add: getDependencyInfo_def Let_def js_index_def)
  have alnum: "fst (getDependencyInfo raw) = dropWhile (\<lambda>c. \<not> isAlnum c) (hd fs)"
    if "CHR ''_'' \<notin> set (takeWhile (\<lambda>c. \<not> isAlnum c) (hd fs))"
    using main dropWhile_alnum_word [OF that] by simp
  have scenario: "getDependencyInfo ''|  |  +- javax.mail:mail:jar:1.4:compile'' =
           (''javax.mail'', Some ''mail'', Some ''1.4'')"
    by (simp add: getDependencyInfo_def Let_def js_index_def search_w_def slice_from_def
        isWordChar_def isAlnum_def)
  from main alnum scenario show ?thesis by blast
qed

theorem getDependencyInfo_fields_witness:
  "splitOn CHR '':'' ''+- com.foo:bar:jar:2.0:compile'' =
     [''+- com.foo'', ''bar'', ''jar'', ''2.0'', ''compile'']
   \<and> getDependencyInfo ''+- com.foo:bar:jar:2.0:compile'' = (''com.foo'', Some ''bar'', Some ''2.0'')"
proof -
  have s: "splitOn CHR '':'' ''+- com.foo:bar:jar:2.0:compile'' =
     [''+- com.foo'', ''bar'', ''jar'', ''2.0'', ''compile'']"
    by simp
  have l: "2 \<le> length [''+- com.foo'', ''bar'', ''jar'', ''2.0'', ''compile'']"
    by simp
  have w: "\<exists>c \<in> set (hd [''+- com.foo'', ''bar'', ''jar'', ''2.0'', ''compile'']). isWordChar c"
    by (simp add: isWordChar_def isAlnum_def)
  from getDependencyInfo_fields [OF s l w] s show ?thesis
    by (simp add: isWordChar_def isAlnum_def)
qed

section \<open>Dependency attribution filter: proofs\<close>

lemma filter_throwing_Inr:
  "filter_throwing p xs = Inr ys \<Longrightarrow> ys = filter (\<lambda>x. p x = Inr True) xs \<and> (\<forall>x \<in> set xs. \<exists>b. p x = Inr b)"
proof (induction xs arbitrary: ys)
  case Nil
  then show ?case by simp
next
  case (Cons x xs)
  from Cons.prems obtain b zs where px: "p x = Inr b" and rest: "filter_throwing p xs = Inr zs"
    and ys: "ys = (if b then x # zs else zs)"
    by (auto split: sum.splits)
  from Cons.IH [OF rest] px ys show ?case by auto
qed

lemma filter_throwing_kept:
  "\<forall>x \<in> set xs. p x = Inr True \<Longrightarrow> filter_throwing p xs = Inr xs"
  by (induction xs) auto

text \<open>
  C5. Whatever the regular-expression matcher of the runtime does: when
  \<open>filterParentDependencies\<close> returns a list for a child list and a present parent list,
  applying it to that list with the same parent list returns the same list again.
\<close>

theorem filterParentDependencies_idempotent:
  assumes "filterParentDependencies matchMG childDependencies (Some parentDeps) = Inr (Some once)"
  shows "filterParentDependencies matchMG once (Some parentDeps) = Inr (Some once)"
proof -
  let ?p = "notInParent matchMG (join '' '' parentDeps)"
  from assms have "filter_throwing ?p childDependencies = Inr once"
    by (auto simp: filterParentDependencies_def Let_def split: sum.splits)
  from filter_throwing_Inr [OF this] have "once = filter (\<lambda>x. ?p x = Inr True) childDependencies"
    by simp
  then have "\<forall>x \<in> set once. ?p x = Inr True"
    by simp
  from filter_throwing_kept [OF this] show ?thesis
    by (simp add: filterParentDependencies_def Let_def)
qed

theorem filterParentDependencies_idempotent_witness:
  "filterParentDependencies regexp_mg_match
     [''+- javax.mail:mail:jar:1.4:compile'', ''+- com.foo:bar:jar:2.0:compile'']
     (Some [''+- javax.mail:mail:jar:1.4:compile'']) = Inr (Some [''+- com.foo:bar:jar:2.0:compile''])
   \<and> filterParentDependencies regexp_mg_match [''+- com.foo:bar:jar:2.0:compile'']
     (Some [''+- javax.mail:mail:jar:1.4:compile'']) = Inr (Some [''+- com.foo:bar:jar:2.0:compile''])"
proof -
  have once: "filterParentDependencies regexp_mg_match
     [''+- javax.mail:mail:jar:1.4:compile'', ''+- com.foo:bar:jar:2.0:compile'']
     (Some [''+- javax.mail:mail:jar:1.4:compile'']) = Inr (Some [''+- com.foo:bar:jar:2.0:compile''])"
    by (simp add: filterParentDependencies_def notInParent_def regexp_mg_match_def Let_def
        search_w_def slice_from_def isWordChar_def isAlnum_def isMetaChar_def
        isLineTerminator_def LF_def CR_def BACKSLASH_def)
  from filterParentDependencies_idempotent [OF once] once show ?thesis by simp
qed

text \<open>
  C4. With no parent list the result is \<open>undefined\<close>, and with a parent list it never is.
  The child line \<open>+- javax.mail:mail:jar:1.4:compile\<close> is excluded when the parent has it,
  and \<open>+- com.foo:bar:jar:2.0:compile\<close> is kept when the parent has only the \<open>javax.mail\<close>
  line. But the suffix of the child line is used as a regular expression, not as a text to
  look for: against the parent line \<open>+- com.foo:bar:jar:210:compile\<close> the child line
  \<open>+- com.foo:bar:jar:2.0:compile\<close> is excluded, because the \<open>.\<close> of \<open>2.0\<close> matches the \<open>1\<close>
  of \<open>210\<close>, although its suffix occurs nowhere in the parent's text.
\<close>

theorem filterParentDependencies_suffix_is_pattern:
  "filterParentDependencies matchMG childDependencies None = Inr None
   \<and> filterParentDependencies matchMG childDependencies (Some parentDeps) \<noteq> Inr None
   \<and> filterParentDependencies regexp_mg_match
        [''+- javax.mail:mail:jar:1.4:compile'', ''+- com.foo:bar:jar:2.0:compile'']
        (Some [''|  +- javax.mail:mail:jar:1.4:compile''])
      = Inr (Some [''+- com.foo:bar:jar:2.0:compile''])
   \<and> filterParentDependencies regexp_mg_match
        [''+- com.foo:bar:jar:2.0:compile''] (Some [''+- com.foo:bar:jar:210:compile''])
      = Inr (Some [])
   \<and> \<not> includes_str (join '' '' [''+- com.foo:bar:jar:210:compile''])
          ''com.foo:bar:jar:2.0:compile''"
proof -
  have a: "filterParentDependencies matchMG childDependencies None = Inr None"
    by (simp add: filterParentDependencies_def)
  have b: "filterParentDependencies matchMG childDependencies (Some parentDeps) \<noteq> Inr None"
    by (simp add: filterParentDependencies_def Let_def split: sum.splits)
  have c: "filterParentDependencies regexp_mg_match
        [''+- javax.mail:mail:jar:1.4:compile'', ''+- com.foo:bar:jar:2.0:compile'']
        (Some [''|  +- javax.mail:mail:jar:1.4:compile''])
      = Inr (Some [''+- com.foo:bar:jar:2.0:compile''])"
    by code_simp
  have d: "filterParentDependencies regexp_mg_match
        [''+- com.foo:bar:jar:2.0:compile''] (Some [''+- com.foo:bar:jar:210:compile''])
      = Inr (Some [])"
    by code_simp
  have e: "\<not> includes_str (join '' '' [''+- com.foo:bar:jar:210:compile''])
          ''com.foo:bar:jar:2.0:compile''"
    by code_simp
  from a b c d e show ?thesis by blast
qed

section \<open>Descriptor position locator: proofs\<close>

text \<open>
  C10. For every document, \<open>getDependencyPos\<close> with an absent tree node returns the empty
  list of positions; the document plays no part in the result.
\<close>

theorem getDependencyPos_undefined_node:
  "getDependencyPos document None = []"
  by simp

text \<open>
  C6, as the code has it. When no dependency block of the document contains the group id and
  the artifact id of the node: a node that is not a \<open>MavenTreeNode\<close> gives what
  \<open>getDependencyPos\<close> gives for the same document and the node's parent, that is, the same
  text is searched for the identity of the parent node; a \<open>MavenTreeNode\<close> gives the empty
  list.
\<close>

theorem getDependencyPos_no_block:
  assumes "dependencyMatch (getText document) (componentId node) = []"
  shows "getDependencyPos document (Some node) =
           (if isMavenTreeNode node then [] else getDependencyPos document (parent node))"
  using assms by (cases node) simp

theorem getDependencyPos_no_block_witness:
  "dependencyMatch (getText (textDocument example_pom)) (componentId example_project) = []
   \<and> getDependencyPos (textDocument example_pom) (Some example_project) = []"
proof -
  have m: "dependencyMatch (getText (textDocument example_pom)) (componentId example_project) = []"
    by code_simp
  from getDependencyPos_no_block [OF m] m show ?thesis
    by (simp add: example_project_def)
qed

text \<open>
  C6, as the claim has it, fails. The node of \<open>org.q:zeta:7\<close> is not a \<open>MavenTreeNode\<close>, and
  no block of the document contains its group id and artifact id; neither \<open>org.q\<close> nor
  \<open>zeta\<close> occurs in the text at all. The search does not move to another descriptor text
  to find that dependency: the result is the three spans of the declaration of the parent
  node \<open>org.p:lib:2\<close> in the same document.
\<close>

theorem getDependencyPos_parent_identity_counterexample:
  "\<not> isMavenTreeNode example_transitive
   \<and> dependencyMatch example_pom (componentId example_transitive) = []
   \<and> \<not> includes_str example_pom ''org.q''
   \<and> \<not> includes_str example_pom ''zeta''
   \<and> getDependencyPos (textDocument example_pom) (Some example_transitive) =
       [\<lparr>line = 1, character = 2\<rparr>, \<lparr>line = 1, character = 26\<rparr>,
        \<lparr>line = 2, character = 2\<rparr>, \<lparr>line = 2, character = 30\<rparr>,
        \<lparr>line = 3, character = 2\<rparr>, \<lparr>line = 3, character = 22\<rparr>]
   \<and> getDependencyPos (textDocument example_pom) (Some example_transitive) =
       dependencySpans (textDocument example_pom) (componentId example_direct) example_pom"
  by code_simp

section \<open>Descriptor locator: proofs\<close>



















section \<open>GAV resolver: proofs\<close>

lemma populateCache_append_bad:
  "\<forall>l \<in> set pre. jsonParse l \<noteq> None \<Longrightarrow> jsonParse bad = None \<Longrightarrow>
   populateCache jsonParse (pre @ bad # post) cache = (fst (populateCache jsonParse pre cache), False)"
  by (induction pre arbitrary: cache) (auto split: option.splits)

lemma populateCache_keeps:
  "cache p \<noteq> None \<Longrightarrow> fst (populateCache jsonParse ls cache) p \<noteq> None"
  by (induction ls arbitrary: cache) (auto split: option.splits)

lemma populateCache_entry:
  "\<forall>l \<in> set pre. jsonParse l \<noteq> None \<Longrightarrow> l \<in> set pre \<Longrightarrow> jsonParse l = Some (p, g, pg) \<Longrightarrow>
     fst (populateCache jsonParse pre cache) p \<noteq> None"
proof (induction pre arbitrary: cache)
  case Nil
  then show ?case by simp
next
  case (Cons a pre)
  from Cons.prems(1) obtain p' g' pg' where a: "jsonParse a = Some (p', g', pg')" by fastforce
  show ?case
  proof (cases "l \<in> set pre")
    case True
    with Cons a show ?thesis by simp
  next
    case False
    with Cons.prems a have "p' = p" by auto
    with a show ?thesis using populateCache_keeps [of "cache(p \<mapsto> (g', pg'))" p jsonParse pre]
      by simp
  qed
qed

lemma getPomDetails_hit:
  "pomIdCache st p = Some cached \<Longrightarrow> getPomDetails executeCmd jsonParse p st = (cached, st)"
  by (simp add: getPomDetails_def)

lemma getPomDetails_bad_line:
  assumes miss: "pomIdCache st pathToPomXml = None"
    and run: "executeCmd (invocations st) (ReadGav, Some (dirname pathToPomXml)) = Inr mvnGavRes"
    and lines: "gavLines mvnGavRes = pre @ bad # post"
    and good: "\<forall>l \<in> set pre. jsonParse l \<noteq> None"
    and bad: "jsonParse bad = None"
  shows "getPomDetails executeCmd jsonParse pathToPomXml st =
           (([], []), \<lparr>pomIdCache = fst (populateCache jsonParse pre (pomIdCache st)),
               invocations = invocations st @ [(ReadGav, Some (dirname pathToPomXml))]\<rparr>)"
proof -
  from populateCache_append_bad [OF good bad]
  have pc: "populateCache jsonParse (pre @ bad # post) (pomIdCache st) =
              (fst (populateCache jsonParse pre (pomIdCache st)), False)" .
  show ?thesis
    unfolding getPomDetails_def Let_def
    by (simp add: miss run lines pc)
qed

text \<open>
  C9. Let the requested path miss the cache, the tool return an output, and a line of that
  output fail to decode after lines that decode. Then \<open>getPomDetails\<close> returns the pair of
  empty strings, the cache it leaves is the old cache with the entries of the lines before the
  failing one, and for the path of each of those lines a later call returns the cached pair
  and leaves the state as it is, whatever the tool and the decoder would do: the tool is not
  run again.
\<close>

theorem getPomDetails_cache_not_atomic:
  assumes miss: "pomIdCache st pathToPomXml = None"
    and run: "executeCmd (invocations st) (ReadGav, Some (dirname pathToPomXml)) = Inr mvnGavRes"
    and lines: "gavLines mvnGavRes = pre @ bad # post"
    and good: "\<forall>l \<in> set pre. jsonParse l \<noteq> None"
    and bad: "jsonParse bad = None"
    and res: "getPomDetails executeCmd jsonParse pathToPomXml st = (result, st')"
  shows "result = ([], [])
     \<and> pomIdCache st' = fst (populateCache jsonParse pre (pomIdCache st))
     \<and> (\<forall>l \<in> set pre. \<forall>p g pg. jsonParse l = Some (p, g, pg) \<longrightarrow>
           (\<exists>cached. pomIdCache st' p = Some cached
              \<and> (\<forall>executeCmd' jsonParse'. getPomDetails executeCmd' jsonParse' p st' = (cached, st'))))"
proof (intro conjI ballI allI impI)
  from getPomDetails_bad_line [of st pathToPomXml executeCmd mvnGavRes pre bad post jsonParse,
      OF miss run lines good bad] res
  have r: "result = ([], [])"
    and s: "st' = \<lparr>pomIdCache = fst (populateCache jsonParse pre (pomIdCache st)),
               invocations = invocations st @ [(ReadGav, Some (dirname pathToPomXml))]\<rparr>"
    by simp_all
  show "result = ([], [])" by (rule r)
  show c: "pomIdCache st' = fst (populateCache jsonParse pre (pomIdCache st))"
    by (simp add: s)
  fix l p g pg
  assume l: "l \<in> set pre" and j: "jsonParse l = Some (p, g, pg)"
  from populateCache_entry [OF good l j, of "pomIdCache st"]
  obtain cached where "fst (populateCache jsonParse pre (pomIdCache st)) p = Some cached"
    by blast
  with c have hit: "pomIdCache st' p = Some cached" by simp
  have "\<forall>executeCmd' jsonParse'. getPomDetails executeCmd' jsonParse' p st' = (cached, st')"
    using getPomDetails_hit [OF hit] by blast
  with hit show "\<exists>cached. pomIdCache st' p = Some cached
              \<and> (\<forall>executeCmd' jsonParse'. getPomDetails executeCmd' jsonParse' p st' = (cached, st'))"
    by blast
qed

theorem getPomDetails_cache_not_atomic_witness:
  "fst (getPomDetails (printsLines brokenLines) decodeGavLine ''/w/pom.xml'' freshState) = ([], [])
   \<and> (let st' = snd (getPomDetails (printsLines brokenLines) decodeGavLine ''/w/pom.xml'' freshState)
      in pomIdCache st' ''/w/pom.xml'' = Some (''g:p:1'', [])
         \<and> getPomDetails (\<lambda>log call. Inl ExecError) decodeGavLine ''/w/pom.xml'' st'
             = ((''g:p:1'', []), st'))"
proof -
  let ?line = "gavLine ''/w/pom.xml'' ''g:p:1'' []"
  define r where "r = getPomDetails (printsLines brokenLines) decodeGavLine ''/w/pom.xml'' freshState"
  have res: "getPomDetails (printsLines brokenLines) decodeGavLine ''/w/pom.xml'' freshState
               = (fst r, snd r)"
    by (simp add: r_def)
  have miss: "pomIdCache freshState ''/w/pom.xml'' = None"
    by (simp add: freshState_def)
  have run: "printsLines brokenLines (invocations freshState) (ReadGav, Some (dirname ''/w/pom.xml''))
               = Inr (join [LF] brokenLines)"
    by (simp add: printsLines_def)
  have lines: "gavLines (join [LF] brokenLines)
                 = [?line] @ ''oops'' # [gavLine ''/w/a/pom.xml'' ''g:a:1'' ''g:p:1'']"
    by code_simp
  have dec: "decodeGavLine ?line = Some (''/w/pom.xml'', ''g:p:1'', [])"
    by code_simp
  then have good: "\<forall>l \<in> set [?line]. decodeGavLine l \<noteq> None"
    by simp
  have bad: "decodeGavLine ''oops'' = None"
    by code_simp
  note t = getPomDetails_cache_not_atomic [OF miss run lines good bad res]
  from t have empty: "fst r = ([], [])"
    by (elim conjE)
  from t have cache: "pomIdCache (snd r)
                        = fst (populateCache decodeGavLine [?line] (pomIdCache freshState))"
    by (elim conjE)
  from t have later: "\<forall>l \<in> set [?line]. \<forall>p g pg. decodeGavLine l = Some (p, g, pg) \<longrightarrow>
           (\<exists>cached. pomIdCache (snd r) p = Some cached
              \<and> (\<forall>executeCmd' jsonParse'.
                    getPomDetails executeCmd' jsonParse' p (snd r) = (cached, snd r)))"
    by (elim conjE)
  from cache dec have hit: "pomIdCache (snd r) ''/w/pom.xml'' = Some (''g:p:1'', [])"
    by simp
  from later dec obtain cached where c: "pomIdCache (snd r) ''/w/pom.xml'' = Some cached"
    and a: "\<forall>executeCmd' jsonParse'.
              getPomDetails executeCmd' jsonParse' ''/w/pom.xml'' (snd r) = (cached, snd r)"
    by auto
  from c hit have "cached = (''g:p:1'', [])" by simp
  with a have "getPomDetails (\<lambda>log call. Inl ExecError) decodeGavLine ''/w/pom.xml'' (snd r)
                 = ((''g:p:1'', []), snd r)"
    by blast
  with empty hit show ?thesis
    unfolding r_def Let_def by (intro conjI)
qed

section \<open>Prototype tree builder: proofs\<close>

subsection \<open>Observations of a forest under the operations\<close>

lemma forestLabels_append: "forestLabels (xs @ ys) = forestLabels xs @ forestLabels ys"
  by (induction xs) simp_all

lemma nodeLabels_sel: "nodeLabels t = (pomGav t, pomPath t) # forestLabels (children t)"
  by (cases t) simp

lemma forestEdges_append: "forestEdges (xs @ ys) = forestEdges xs \<union> forestEdges ys"
  by (induction xs) auto

lemma nodeEdges_sel:
  "nodeEdges t = (\<lambda>c. (pomGav c, pomGav t)) ` set (children t) \<union> forestEdges (children t)"
  by (cases t) simp

lemma nestedLabels_append: "nestedLabels (xs @ ys) = nestedLabels xs @ nestedLabels ys"
  by (simp add: nestedLabels_def)

lemma nestedLabels_Cons: "nestedLabels (t # ts) = forestLabels (children t) @ nestedLabels ts"
  by (simp add: nestedLabels_def)

lemma nestedLabels_Nil: "nestedLabels [] = []"
  by (simp add: nestedLabels_def)

lemma forestLabels_roots_nested:
  "set (forestLabels f) = (\<lambda>t. (pomGav t, pomPath t)) ` set f \<union> set (nestedLabels f)"
  by (induction f) (auto simp: nestedLabels_Cons nestedLabels_Nil nodeLabels_sel)

text \<open>The deep search fails exactly when no node has the identity.\<close>

lemma deepSearch_None:
  "(deepSearch t gav = None) = (gav \<notin> fst ` set (nodeLabels t))"
  "(getPrototypeNode f gav = None) = (gav \<notin> fst ` set (forestLabels f))"
  by (induction t gav and f gav rule: deepSearch_getPrototypeNode.induct)
    (auto split: option.splits)

lemma addChildAt_labels:
  "gav \<in> fst ` set (nodeLabels t) \<Longrightarrow>
     mset (nodeLabels (addChildAt gav node t)) = mset (nodeLabels t) + mset (nodeLabels node)"
  "gav \<in> fst ` set (forestLabels f) \<Longrightarrow>
     mset (forestLabels (addChildAtFirst gav node f)) = mset (forestLabels f) + mset (nodeLabels node)"
proof (induction gav node t and gav node f rule: addChildAt_addChildAtFirst.induct)
  case (1 gav node g p pg cs)
  then show ?case by (auto simp: addChild_def forestLabels_append)
next
  case (2 gav node)
  then show ?case by simp
next
  case (3 gav node t ts)
  show ?case
  proof (cases "deepSearch t gav")
    case None
    with 3 deepSearch_None(1) [of t gav] show ?thesis by auto
  next
    case (Some found)
    with 3 deepSearch_None(1) [of t gav] show ?thesis by auto
  qed
qed

lemma addChildAt_edges:
  "gav \<in> fst ` set (nodeLabels t) \<Longrightarrow>
     nodeEdges (addChildAt gav node t) = nodeEdges t \<union> nodeEdges node \<union> {(pomGav node, gav)}
     \<and> pomGav (addChildAt gav node t) = pomGav t"
  "gav \<in> fst ` set (forestLabels f) \<Longrightarrow>
     forestEdges (addChildAtFirst gav node f) = forestEdges f \<union> nodeEdges node \<union> {(pomGav node, gav)}
     \<and> map pomGav (addChildAtFirst gav node f) = map pomGav f"
proof (induction gav node t and gav node f rule: addChildAt_addChildAtFirst.induct)
  case (1 gav node g p pg cs)
  show ?case
  proof (cases "g = gav")
    case True
    then show ?thesis by (auto simp: addChild_def forestEdges_append)
  next
    case False
    with 1 have "forestEdges (addChildAtFirst gav node cs)
                   = forestEdges cs \<union> nodeEdges node \<union> {(pomGav node, gav)}"
      and "map pomGav (addChildAtFirst gav node cs) = map pomGav cs" by auto
    moreover from this(2) have "pomGav ` set (addChildAtFirst gav node cs) = pomGav ` set cs"
      by (metis set_map)
    ultimately show ?thesis using False by (auto simp: image_iff)
  qed
next
  case (2 gav node)
  then show ?case by simp
next
  case (3 gav node t ts)
  show ?case
  proof (cases "deepSearch t gav")
    case None
    with 3 deepSearch_None(1) [of t gav] show ?thesis by auto
  next
    case (Some found)
    with 3 deepSearch_None(1) [of t gav] show ?thesis by auto
  qed
qed

lemma addChildAt_children_labels:
  assumes "gav \<in> fst ` set (nodeLabels t)"
  shows "set (forestLabels (children (addChildAt gav node t)))
           = set (forestLabels (children t)) \<union> set (nodeLabels node)"
proof (cases t)
  case (PomTree g p pg cs)
  show ?thesis
  proof (cases "g = gav")
    case True
    with PomTree show ?thesis by (auto simp: addChild_def forestLabels_append)
  next
    case False
    with assms PomTree have "gav \<in> fst ` set (forestLabels cs)" by auto
    from addChildAt_labels(2) [OF this, of node]
    have "set_mset (mset (forestLabels (addChildAtFirst gav node cs)))
            = set_mset (mset (forestLabels cs) + mset (nodeLabels node))" by simp
    with False PomTree show ?thesis by simp
  qed
qed

lemma addChildAtFirst_nested:
  "gav \<in> fst ` set (forestLabels f) \<Longrightarrow>
     set (nestedLabels (addChildAtFirst gav node f)) = set (nestedLabels f) \<union> set (nodeLabels node)"
proof (induction f)
  case Nil
  then show ?case by simp
next
  case (Cons t ts)
  show ?case
  proof (cases "deepSearch t gav")
    case None
    with deepSearch_None(1) [of t gav] Cons show ?thesis
      by (auto simp: nestedLabels_Cons)
  next
    case (Some found)
    with deepSearch_None(1) [of t gav] have "gav \<in> fst ` set (nodeLabels t)" by auto
    from addChildAt_children_labels [OF this, of node] Some show ?thesis
      by (auto simp: nestedLabels_Cons)
  qed
qed

lemma addPrototypeNode_labels:
  "mset (forestLabels (addPrototypeNode f (PomTree g p pg cs)))
     = mset (forestLabels f) + mset (nodeLabels (PomTree g p pg cs))
       + (if pg \<noteq> [] \<and> pg \<notin> fst ` set (forestLabels f) then {#(pg, [])#} else {#})"
proof (cases "pg = []")
  case True
  then show ?thesis by (simp add: addPrototypeNode_def forestLabels_append)
next
  case False
  show ?thesis
  proof (cases "getPrototypeNode f pg")
    case None
    with deepSearch_None(2) [of f pg] False show ?thesis
      by (simp add: addPrototypeNode_def forestLabels_append addChild_def newPomTree_def)
  next
    case (Some parentNode)
    with deepSearch_None(2) [of f pg] have "pg \<in> fst ` set (forestLabels f)" by auto
    with addChildAt_labels(2) [OF this] Some False show ?thesis
      by (simp add: addPrototypeNode_def)
  qed
qed

lemma addPrototypeNode_edges:
  "forestEdges (addPrototypeNode f (PomTree g p pg cs))
     = forestEdges f \<union> nodeEdges (PomTree g p pg cs) \<union> (if pg \<noteq> [] then {(g, pg)} else {})"
proof (cases "pg = []")
  case True
  then show ?thesis by (simp add: addPrototypeNode_def forestEdges_append)
next
  case False
  show ?thesis
  proof (cases "getPrototypeNode f pg")
    case None
    with False show ?thesis
      by (auto simp: addPrototypeNode_def forestEdges_append addChild_def newPomTree_def)
  next
    case (Some parentNode)
    with deepSearch_None(2) [of f pg] have "pg \<in> fst ` set (forestLabels f)" by auto
    with addChildAt_edges(2) [OF this, of "PomTree g p pg cs"] Some False show ?thesis
      by (simp add: addPrototypeNode_def)
  qed
qed

lemma addPrototypeNode_nested:
  "set (nestedLabels (addPrototypeNode f (PomTree g p pg cs)))
     = set (nestedLabels f)
       \<union> (if pg \<noteq> [] then set (nodeLabels (PomTree g p pg cs)) else set (forestLabels cs))"
proof (cases "pg = []")
  case True
  then show ?thesis
    by (simp add: addPrototypeNode_def nestedLabels_append nestedLabels_Cons nestedLabels_Nil)
next
  case False
  show ?thesis
  proof (cases "getPrototypeNode f pg")
    case None
    with False show ?thesis
      by (simp add: addPrototypeNode_def nestedLabels_append nestedLabels_Cons nestedLabels_Nil
          addChild_def newPomTree_def)
  next
    case (Some parentNode)
    with deepSearch_None(2) [of f pg] have "pg \<in> fst ` set (forestLabels f)" by auto
    with addChildAtFirst_nested [OF this, of "PomTree g p pg cs"] Some False show ?thesis
      by (simp add: addPrototypeNode_def)
  qed
qed

subsection \<open>The search over the roots and the removal of a root\<close>

lemma findIndex_ge: "- 1 \<le> findIndex P xs"
  by (induction xs) (auto simp: Let_def)

lemma findIndex_found:
  "0 \<le> findIndex P xs \<Longrightarrow> nat (findIndex P xs) < length xs \<and> P (xs ! nat (findIndex P xs))"
proof (induction xs)
  case Nil
  then show ?case by simp
next
  case (Cons x xs)
  show ?case
  proof (cases "P x")
    case True
    then show ?thesis by simp
  next
    case False
    with Cons.prems have ge: "0 \<le> findIndex P xs"
      by (simp add: Let_def split: if_splits)
    then have "nat (findIndex P xs + 1) = Suc (nat (findIndex P xs))" by simp
    with False ge Cons.IH [OF ge] show ?thesis by (simp add: Let_def)
  qed
qed

lemma findIndex_none: "findIndex P xs < 0 \<Longrightarrow> \<forall>x \<in> set xs. \<not> P x"
  by (induction xs) (auto simp: Let_def split: if_splits)


lemma splice_labels:
  assumes "i < length f"
  shows "mset (forestLabels f)
           = mset (forestLabels (take i f @ drop (Suc i) f)) + mset (nodeLabels (f ! i))"
proof -
  from assms have "f = take i f @ f ! i # drop (Suc i) f" by (rule id_take_nth_drop)
  then have "forestLabels f = forestLabels (take i f @ f ! i # drop (Suc i) f)" by simp
  then show ?thesis by (simp add: forestLabels_append)
qed

lemma splice_edges:
  assumes "i < length f"
  shows "forestEdges f = forestEdges (take i f @ drop (Suc i) f) \<union> nodeEdges (f ! i)"
proof -
  from assms have "f = take i f @ f ! i # drop (Suc i) f" by (rule id_take_nth_drop)
  then have "forestEdges f = forestEdges (take i f @ f ! i # drop (Suc i) f)" by simp
  then show ?thesis by (auto simp: forestEdges_append)
qed

lemma splice_nested:
  assumes "i < length f"
  shows "set (nestedLabels f)
           = set (nestedLabels (take i f @ drop (Suc i) f)) \<union> set (forestLabels (children (f ! i)))"
proof -
  from assms have "f = take i f @ f ! i # drop (Suc i) f" by (rule id_take_nth_drop)
  then have "nestedLabels f = nestedLabels (take i f @ f ! i # drop (Suc i) f)" by simp
  then show ?thesis by (auto simp: nestedLabels_append nestedLabels_Cons)
qed

text \<open>What \<open>placePom\<close> does before it calls \<open>addPrototypeNode\<close>: either a root with the
  identity is taken out and keeps its children, or a node without children is created.\<close>

lemma placePom_split:
  assumes "g \<noteq> []"
  obtains (found) i where "i < length f" "pomGav (f ! i) = g"
      "placePom f (path, g, pg) =
         addPrototypeNode (take i f @ drop (Suc i) f)
           (PomTree g (dirname path) pg (children (f ! i)))"
  | (created) "\<forall>t \<in> set f. pomGav t \<noteq> g"
      "placePom f (path, g, pg) = addPrototypeNode f (PomTree g (dirname path) pg [])"
proof (cases "searchPomGav f g > -1")
  case True
  then have ge: "0 \<le> findIndex (\<lambda>pomTree. pomGav pomTree = g) f"
    by (simp add: searchPomGav_def)
  from findIndex_found [OF ge]
  have "nat (searchPomGav f g) < length f" "pomGav (f ! nat (searchPomGav f g)) = g"
    by (simp_all add: searchPomGav_def)
  moreover from True assms
  have "placePom f (path, g, pg) =
         addPrototypeNode (take (nat (searchPomGav f g)) f @ drop (Suc (nat (searchPomGav f g))) f)
           (PomTree g (dirname path) pg (children (f ! nat (searchPomGav f g))))"
    using calculation(2) by (simp add: placePom_def Let_def)
  ultimately show ?thesis by (rule found)
next
  case False
  with findIndex_ge [of "\<lambda>pomTree. pomGav pomTree = g" f]
  have lt: "findIndex (\<lambda>pomTree. pomGav pomTree = g) f < 0"
    by (simp add: searchPomGav_def)
  from findIndex_none [OF lt] have "\<forall>t \<in> set f. pomGav t \<noteq> g" by simp
  moreover from False assms
  have "placePom f (path, g, pg) = addPrototypeNode f (PomTree g (dirname path) pg [])"
    by (simp add: placePom_def Let_def newPomTree_def)
  ultimately show ?thesis by (rule created)
qed

lemma placePom_empty_gav: "placePom f (path, [], pg) = f"
  by (simp add: placePom_def)

lemma dirname_not_empty: "dirname path \<noteq> []"
proof (cases path)
  case Nil
  then show ?thesis by simp
next
  case (Cons c cs)
  define n where
    "n = length (dropWhile (\<lambda>x. x \<noteq> CHR ''/'') (dropWhile (\<lambda>x. x = CHR ''/'') (rev cs)))"
  have d: "dirname (c # cs) =
     (if n = 0 then (if c = CHR ''/'' then ''/'' else ''.'')
      else if c = CHR ''/'' \<and> n = 1 then ''//'' else take n (c # cs))"
    unfolding n_def dirname.simps Let_def by (rule refl)
  show ?thesis
  proof (cases n)
    case 0
    with d Cons show ?thesis by simp
  next
    case (Suc m)
    with d Cons show ?thesis by simp
  qed
qed

subsection \<open>Placeholders stay among the roots\<close>



subsection \<open>Identities stay unique\<close>

text \<open>From the identity of any node of a tree, the child-parent pairs lead to the identity of
  the root.\<close>

lemma labels_reach_root:
  "x \<in> fst ` set (nodeLabels t) \<Longrightarrow> (x, pomGav t) \<in> (nodeEdges t)\<^sup>*"
  "x \<in> fst ` set (forestLabels f) \<Longrightarrow> \<exists>t \<in> set f. (x, pomGav t) \<in> (forestEdges f)\<^sup>*"
proof (induction t and f rule: nodeLabels_forestLabels.induct)
  case (1 g p pg cs)
  show ?case
  proof (cases "x = g")
    case True
    then show ?thesis by simp
  next
    case False
    with 1 obtain c where c: "c \<in> set cs" and r: "(x, pomGav c) \<in> (forestEdges cs)\<^sup>*"
      by auto
    have "forestEdges cs \<subseteq> nodeEdges (PomTree g p pg cs)" by auto
    from rtrancl_mono [OF this] r have "(x, pomGav c) \<in> (nodeEdges (PomTree g p pg cs))\<^sup>*"
      by blast
    moreover from c have "(pomGav c, g) \<in> nodeEdges (PomTree g p pg cs)" by auto
    ultimately show ?thesis by (auto intro: rtrancl_into_rtrancl)
  qed
next
  case 2
  then show ?case by simp
next
  case (3 t ts)
  from 3(3) have "x \<in> fst ` set (nodeLabels t) \<or> x \<in> fst ` set (forestLabels ts)" by auto
  then show ?case
  proof
    assume "x \<in> fst ` set (nodeLabels t)"
    from 3(1) [OF this] have "(x, pomGav t) \<in> (nodeEdges t)\<^sup>*" .
    moreover have "nodeEdges t \<subseteq> forestEdges (t # ts)" by auto
    ultimately have "(x, pomGav t) \<in> (forestEdges (t # ts))\<^sup>*"
      using rtrancl_mono by blast
    then show ?thesis by auto
  next
    assume "x \<in> fst ` set (forestLabels ts)"
    from 3(2) [OF this] obtain u where u: "u \<in> set ts"
      and r: "(x, pomGav u) \<in> (forestEdges ts)\<^sup>*"
      by auto
    have "forestEdges ts \<subseteq> forestEdges (t # ts)" by auto
    from rtrancl_mono [OF this] r have "(x, pomGav u) \<in> (forestEdges (t # ts))\<^sup>*" by blast
    with u show ?thesis by auto
  qed
qed

lemma parent_not_below:
  assumes "acyclic R" "(g, pg) \<in> R" "nodeEdges node \<subseteq> R" "pomGav node = g"
  shows "pg \<notin> fst ` set (nodeLabels node)"
proof
  assume "pg \<in> fst ` set (nodeLabels node)"
  from labels_reach_root(1) [OF this] assms(4) have "(pg, g) \<in> (nodeEdges node)\<^sup>*" by simp
  with rtrancl_mono [OF assms(3)] have "(pg, g) \<in> R\<^sup>*" by blast
  with assms(2) have "(g, g) \<in> R\<^sup>+" by (rule rtrancl_into_trancl2)
  with assms(1) show False by (simp add: acyclic_def)
qed

lemma addPrototypeNode_gavs:
  "mset (forestGavs (addPrototypeNode f (PomTree g p pg cs)))
     = mset (forestGavs f) + mset (map fst (nodeLabels (PomTree g p pg cs)))
       + (if pg \<noteq> [] \<and> pg \<notin> set (forestGavs f) then {#pg#} else {#})"
proof -
  have "mset (forestGavs (addPrototypeNode f (PomTree g p pg cs)))
          = image_mset fst (mset (forestLabels (addPrototypeNode f (PomTree g p pg cs))))"
    by (simp add: forestGavs_def)
  also have "\<dots> = image_mset fst (mset (forestLabels f) + mset (nodeLabels (PomTree g p pg cs))
       + (if pg \<noteq> [] \<and> pg \<notin> fst ` set (forestLabels f) then {#(pg, [])#} else {#}))"
    by (simp only: addPrototypeNode_labels)
  also have "\<dots> = mset (forestGavs f) + mset (map fst (nodeLabels (PomTree g p pg cs)))
       + (if pg \<noteq> [] \<and> pg \<notin> set (forestGavs f) then {#pg#} else {#})"
    by (simp add: forestGavs_def)
  finally show ?thesis .
qed

lemma addPrototypeNode_distinct:
  assumes d: "distinct (forestGavs f @ map fst (nodeLabels (PomTree g p pg cs)))"
    and np: "pg \<noteq> [] \<longrightarrow> pg \<notin> fst ` set (nodeLabels (PomTree g p pg cs))"
  shows "distinct (forestGavs (addPrototypeNode f (PomTree g p pg cs)))"
proof (cases "pg \<noteq> [] \<and> pg \<notin> set (forestGavs f)")
  case True
  with addPrototypeNode_gavs [of f g p pg cs]
  have "mset (forestGavs (addPrototypeNode f (PomTree g p pg cs)))
          = mset (pg # forestGavs f @ map fst (nodeLabels (PomTree g p pg cs)))"
    by simp
  from mset_eq_imp_distinct_iff [OF this] d np True show ?thesis
    by (simp del: nodeLabels.simps)
next
  case False
  with addPrototypeNode_gavs [of f g p pg cs]
  have "mset (forestGavs (addPrototypeNode f (PomTree g p pg cs)))
          = mset (forestGavs f @ map fst (nodeLabels (PomTree g p pg cs)))"
    by (simp del: nodeLabels.simps)
  from mset_eq_imp_distinct_iff [OF this] d show ?thesis by simp
qed

lemma placePom_inv:
  assumes inv: "forestInv R G f"
    and fresh: "g \<notin> G"
    and ne: "g \<noteq> []"
    and edge: "pg \<noteq> [] \<longrightarrow> (g, pg) \<in> R"
    and acyc: "acyclic R"
  shows "forestInv R (insert g G) (placePom f (path, g, pg))"
proof -
  from inv have dist: "distinct (forestGavs f)"
    and nested: "\<forall>l \<in> set (nestedLabels f). snd l \<noteq> []"
    and real: "\<forall>l \<in> set (forestLabels f). snd l \<noteq> [] \<longrightarrow> fst l \<in> G"
    and edges: "forestEdges f \<subseteq> R"
    by (simp_all add: forestInv_def)
  let ?d = "dirname path"
  from ne show ?thesis
  proof (cases rule: placePom_split [of g f path pg])
    case (found i)
    let ?sp = "take i f @ drop (Suc i) f"
    let ?cs = "children (f ! i)"
    let ?node = "PomTree g ?d pg ?cs"
    have lab: "mset (forestLabels f) = mset (forestLabels ?sp) + mset (nodeLabels (f ! i))"
      by (rule splice_labels [OF found(1)])
    have ti: "nodeLabels (f ! i) = (g, pomPath (f ! i)) # forestLabels ?cs"
      using found(2) by (simp add: nodeLabels_sel)
    from lab ti have "mset (forestGavs f) = mset (forestGavs ?sp @ map fst (nodeLabels ?node))"
      by (simp add: forestGavs_def)
    from mset_eq_imp_distinct_iff [OF this] dist
    have d1: "distinct (forestGavs ?sp @ map fst (nodeLabels ?node))" by simp
    have ne_t: "nodeEdges ?node = nodeEdges (f ! i)"
      using found(2) by (simp add: nodeEdges_sel)
    from splice_edges [OF found(1)] edges
    have e_sp: "forestEdges ?sp \<subseteq> R" and e_t: "nodeEdges (f ! i) \<subseteq> R" by auto
    have np: "pg \<noteq> [] \<longrightarrow> pg \<notin> fst ` set (nodeLabels ?node)"
    proof
      assume "pg \<noteq> []"
      with edge have "(g, pg) \<in> R" by simp
      moreover from ne_t e_t have "nodeEdges ?node \<subseteq> R" by (simp only:)
      moreover have "pomGav ?node = g" by simp
      ultimately show "pg \<notin> fst ` set (nodeLabels ?node)"
        by (rule parent_not_below [OF acyc])
    qed
    have c1: "distinct (forestGavs (placePom f (path, g, pg)))"
      using addPrototypeNode_distinct [OF d1 np] found(3) by simp
    from splice_nested [OF found(1)] nested
    have n_sp: "\<forall>l \<in> set (nestedLabels ?sp). snd l \<noteq> []"
      and n_cs: "\<forall>l \<in> set (forestLabels ?cs). snd l \<noteq> []" by auto
    have c2: "\<forall>l \<in> set (nestedLabels (placePom f (path, g, pg))). snd l \<noteq> []"
      using n_sp n_cs dirname_not_empty [of path] found(3)
      by (auto simp: addPrototypeNode_nested)
    have sub: "set (forestLabels ?sp) \<union> set (forestLabels ?cs) \<subseteq> set (forestLabels f)"
    proof -
      from lab ti have "set_mset (mset (forestLabels f))
          = set_mset (mset (forestLabels ?sp) + mset ((g, pomPath (f ! i)) # forestLabels ?cs))"
        by simp
      then show ?thesis by auto
    qed
    have "set (forestLabels (placePom f (path, g, pg)))
            \<subseteq> set (forestLabels ?sp) \<union> set (nodeLabels ?node) \<union> {(pg, [])}"
    proof -
      have "set_mset (mset (forestLabels (addPrototypeNode ?sp ?node)))
              \<subseteq> set_mset (mset (forestLabels ?sp) + mset (nodeLabels ?node) + {#(pg, [])#})"
        by (simp only: addPrototypeNode_labels) (auto split: if_splits)
      with found(3) show ?thesis by auto
    qed
    then have sup: "\<And>l. l \<in> set (forestLabels (placePom f (path, g, pg))) \<Longrightarrow>
        l \<in> set (forestLabels ?sp) \<or> l \<in> set (forestLabels ?cs) \<or> l = (g, ?d) \<or> l = (pg, [])"
      by auto
    have c3: "\<forall>l \<in> set (forestLabels (placePom f (path, g, pg))).
        snd l \<noteq> [] \<longrightarrow> fst l \<in> insert g G"
    proof (intro ballI impI)
      fix l
      assume l: "l \<in> set (forestLabels (placePom f (path, g, pg)))" and r: "snd l \<noteq> []"
      from sup [OF l] r have "l \<in> set (forestLabels f) \<or> l = (g, ?d)"
        using sub by auto
      with r real show "fst l \<in> insert g G" by auto
    qed
    have c4: "forestEdges (placePom f (path, g, pg)) \<subseteq> R"
      using found(3) e_sp e_t ne_t edge by (auto simp only: addPrototypeNode_edges split: if_splits)
    from c1 c2 c3 c4 show ?thesis by (simp add: forestInv_def)
  next
    case created
    let ?node = "PomTree g ?d pg []"
    have notin: "g \<notin> set (forestGavs f)"
    proof
      assume "g \<in> set (forestGavs f)"
      then obtain l where l: "l \<in> set (forestLabels f)" and fl: "fst l = g"
        by (auto simp: forestGavs_def)
      from l forestLabels_roots_nested [of f]
      have "l \<in> (\<lambda>t. (pomGav t, pomPath t)) ` set f \<or> l \<in> set (nestedLabels f)" by auto
      then show False
      proof
        assume "l \<in> (\<lambda>t. (pomGav t, pomPath t)) ` set f"
        with fl created(1) show False by auto
      next
        assume n: "l \<in> set (nestedLabels f)"
        with nested have "snd l \<noteq> []" by simp
        with real l have "fst l \<in> G" by simp
        with fl fresh show False by simp
      qed
    qed
    with dist have d1: "distinct (forestGavs f @ map fst (nodeLabels ?node))" by simp
    have np: "pg \<noteq> [] \<longrightarrow> pg \<notin> fst ` set (nodeLabels ?node)"
    proof
      assume "pg \<noteq> []"
      with edge have "(g, pg) \<in> R" by simp
      moreover have "nodeEdges ?node \<subseteq> R" by simp
      moreover have "pomGav ?node = g" by simp
      ultimately show "pg \<notin> fst ` set (nodeLabels ?node)"
        by (rule parent_not_below [OF acyc])
    qed
    have c1: "distinct (forestGavs (placePom f (path, g, pg)))"
      using addPrototypeNode_distinct [OF d1 np] created(2) by simp
    have c2: "\<forall>l \<in> set (nestedLabels (placePom f (path, g, pg))). snd l \<noteq> []"
      using nested dirname_not_empty [of path] created(2)
      by (auto simp: addPrototypeNode_nested)
    have "set (forestLabels (placePom f (path, g, pg)))
            \<subseteq> set (forestLabels f) \<union> set (nodeLabels ?node) \<union> {(pg, [])}"
    proof -
      have "set_mset (mset (forestLabels (addPrototypeNode f ?node)))
              \<subseteq> set_mset (mset (forestLabels f) + mset (nodeLabels ?node) + {#(pg, [])#})"
        by (simp only: addPrototypeNode_labels) (auto split: if_splits)
      with created(2) show ?thesis by auto
    qed
    then have sup: "\<And>l. l \<in> set (forestLabels (placePom f (path, g, pg))) \<Longrightarrow>
        l \<in> set (forestLabels f) \<or> l = (g, ?d) \<or> l = (pg, [])"
      by auto
    have c3: "\<forall>l \<in> set (forestLabels (placePom f (path, g, pg))).
        snd l \<noteq> [] \<longrightarrow> fst l \<in> insert g G"
    proof (intro ballI impI)
      fix l
      assume l: "l \<in> set (forestLabels (placePom f (path, g, pg)))" and r: "snd l \<noteq> []"
      from sup [OF l] r have "l \<in> set (forestLabels f) \<or> l = (g, ?d)"
        by auto
      with r real show "fst l \<in> insert g G" by auto
    qed
    have "nodeEdges ?node = {}" by simp
    then have c4: "forestEdges (placePom f (path, g, pg)) \<subseteq> R"
      using created(2) edges edge by (auto simp only: addPrototypeNode_edges split: if_splits)
    from c1 c2 c3 c4 show ?thesis by (simp add: forestInv_def)
  qed
qed

lemma foldl_placePom_inv:
  assumes acyc: "acyclic R"
  shows "forestInv R G f \<Longrightarrow> distinct (moduleGavs resolved) \<Longrightarrow>
    set (moduleGavs resolved) \<inter> G = {} \<Longrightarrow> parentRelation resolved \<subseteq> R \<Longrightarrow>
    \<exists>G'. forestInv R G' (foldl placePom f resolved)"
proof (induction resolved arbitrary: f G)
  case Nil
  then show ?case by auto
next
  case (Cons r rs)
  obtain path g pg where r: "r = (path, g, pg)" by (cases r) auto
  from Cons.prems(4) have sub: "parentRelation rs \<subseteq> R"
    by (auto simp: parentRelation_def split: if_splits)
  show ?case
  proof (cases "g = []")
    case True
    with r have same: "placePom f r = f" by (simp add: placePom_empty_gav)
    from True r have mg: "moduleGavs (r # rs) = moduleGavs rs" by (simp add: moduleGavs_def)
    from Cons.IH [OF Cons.prems(1) _ _ sub] Cons.prems(2,3) mg same show ?thesis by simp
  next
    case False
    with r have mg: "moduleGavs (r # rs) = g # moduleGavs rs" by (simp add: moduleGavs_def)
    from mg Cons.prems(3) have fresh: "g \<notin> G" by auto
    from r False Cons.prems(4) have edge: "pg \<noteq> [] \<longrightarrow> (g, pg) \<in> R"
      by (auto simp: parentRelation_def)
    from placePom_inv [OF Cons.prems(1) fresh False edge acyc, of path] r
    have inv': "forestInv R (insert g G) (placePom f r)" by simp
    from mg Cons.prems(2,3) have d: "distinct (moduleGavs rs)"
      and disj: "set (moduleGavs rs) \<inter> insert g G = {}" by auto
    from Cons.IH [OF inv' d disj sub] show ?thesis by simp
  qed
qed

lemma forestInv_empty: "forestInv R {} []"
  by (simp add: forestInv_def forestGavs_def nestedLabels_def)

subsection \<open>The sweep and the whole function\<close>

text \<open>The sweep removes nodes and adds none.\<close>

lemma removeRootless_labels:
  "mset (forestLabels (removeRootless i f)) \<subseteq># mset (forestLabels f)"
proof (induction i f rule: removeRootless.induct)
  case (1 i f)
  show ?case
  proof (cases "i < length f")
    case False
    then have "removeRootless i f = f" by (simp add: removeRootless.simps [of i f])
    then show ?thesis by simp
  next
    case True
    show ?thesis
    proof (cases "pomPath (f ! i) = []")
      case False
      with True have "removeRootless i f = removeRootless (Suc i) f"
        by (simp add: removeRootless.simps [of i f])
      with True False 1(2) show ?thesis by simp
    next
      case empty: True
      let ?f' = "take i f @ drop (Suc i) f @ children (f ! i)"
      from True empty 1(1)
      have "mset (forestLabels (removeRootless (Suc i) ?f')) \<subseteq># mset (forestLabels ?f')"
        by simp
      moreover from True have "f = take i f @ f ! i # drop (Suc i) f" by (rule id_take_nth_drop)
      then have "forestLabels f = forestLabels (take i f @ f ! i # drop (Suc i) f)" by simp
      then have "mset (forestLabels f)
                   = mset (forestLabels ?f') + {#(pomGav (f ! i), pomPath (f ! i))#}"
        by (simp add: forestLabels_append nodeLabels_sel)
      then have "mset (forestLabels ?f') \<subseteq># mset (forestLabels f)" by simp
      ultimately have "mset (forestLabels (removeRootless (Suc i) ?f')) \<subseteq># mset (forestLabels f)"
        by (rule subset_mset.order_trans)
      moreover from True empty have "removeRootless i f = removeRootless (Suc i) ?f'"
        by (simp add: removeRootless.simps [of i f])
      ultimately show ?thesis by (simp only:)
    qed
  qed
qed

lemma distinct_mset_subseteq:
  assumes "mset ys \<subseteq># mset xs" and "distinct xs"
  shows "distinct ys"
proof -
  have "count (mset ys) a = (if a \<in> set ys then 1 else 0)" for a
  proof (cases "a \<in> set ys")
    case False
    then show ?thesis by simp
  next
    case True
    then have "0 < count (mset ys) a" by simp
    moreover from assms(1) have "count (mset ys) a \<le> count (mset xs) a"
      by (rule mset_subset_eq_count)
    moreover from assms(2) have "count (mset xs) a \<le> 1"
      by (simp add: distinct_count_atmost_1)
    ultimately have "count (mset ys) a = 1" by linarith
    with True show ?thesis by simp
  qed
  then show ?thesis by (simp add: distinct_count_atmost_1)
qed

lemma removeRootless_distinct:
  assumes "distinct (forestGavs f)"
  shows "distinct (forestGavs (removeRootless i f))"
proof -
  from removeRootless_labels [of i f]
  have "image_mset fst (mset (forestLabels (removeRootless i f)))
          \<subseteq># image_mset fst (mset (forestLabels f))"
    by (rule image_mset_subseteq_mono)
  then have "mset (forestGavs (removeRootless i f)) \<subseteq># mset (forestGavs f)"
    by (simp add: forestGavs_def)
  from distinct_mset_subseteq [OF this assms] show ?thesis .
qed

text \<open>The forest of the loop depends on the resolver only through the pairs it returned.\<close>

lemma foldl_forEachPom:
  "fst (foldl (forEachPom executeCmd jsonParse fsPath) (f, st) poms)
     = foldl placePom f (resolveAll executeCmd jsonParse st (map fsPath poms))"
proof (induction poms arbitrary: f st)
  case Nil
  then show ?case by simp
next
  case (Cons pom poms)
  obtain g pg st' where r: "getPomDetails executeCmd jsonParse (fsPath pom) st = ((g, pg), st')"
    by (metis prod.exhaust)
  then have "forEachPom executeCmd jsonParse fsPath (f, st) pom
               = (placePom f (fsPath pom, g, pg), st')"
    by (simp add: forEachPom_def)
  with Cons [of "placePom f (fsPath pom, g, pg)" st'] r show ?case by simp
qed

lemma buildPrototypePomTree_result:
  "buildPrototypePomTree executeCmd jsonParse fsPath installed pomArray =
     (case (if \<not> installed then installMavenGavReader executeCmd else Inr []) of
        Inl error \<Rightarrow> Inl error
      | Inr log \<Rightarrow>
          Inr (removeRootless 0
                 (foldl placePom [] (resolvedPoms executeCmd jsonParse fsPath installed pomArray))))"
proof (cases installed)
  case True
  then show ?thesis
    by (simp add: buildPrototypePomTree_def resolvedPoms_def foldl_forEachPom)
next
  case False
  show ?thesis
  proof (cases "executeCmd [] (InstallGavReader, None)")
    case (Inl e)
    with False show ?thesis
      by (simp add: buildPrototypePomTree_def installMavenGavReader_def)
  next
    case (Inr out)
    with False show ?thesis
      by (simp add: buildPrototypePomTree_def installMavenGavReader_def resolvedPoms_def
          foldl_forEachPom)
  qed
qed








text \<open>
  C2, as the code has it. A forest is a list of trees, so no node has two parents and no node
  is its own ancestor. When the module GAVs that the resolver returned during the call are
  pairwise different and the pairs (module GAV, parent GAV) it returned have no cycle, the call
  returns a forest in which no identity occurs twice, unless the installation of the reader
  throws, which is the only way the call fails.
\<close>

theorem buildPrototypePomTree_unique_identities:
  assumes "distinct (moduleGavs (resolvedPoms executeCmd jsonParse fsPath installed pomArray))"
    and "acyclic (parentRelation (resolvedPoms executeCmd jsonParse fsPath installed pomArray))"
  shows "case buildPrototypePomTree executeCmd jsonParse fsPath installed pomArray of
           Inl error \<Rightarrow> \<not> installed \<and> executeCmd [] (InstallGavReader, None) = Inl error
         | Inr forest \<Rightarrow> distinct (forestGavs forest)"
proof -
  let ?resolved = "resolvedPoms executeCmd jsonParse fsPath installed pomArray"
  from foldl_placePom_inv [OF assms(2) forestInv_empty assms(1)]
  obtain G where "forestInv (parentRelation ?resolved) G (foldl placePom [] ?resolved)"
    by auto
  then have "distinct (forestGavs (foldl placePom [] ?resolved))"
    by (simp add: forestInv_def)
  then have d: "distinct (forestGavs (removeRootless 0 (foldl placePom [] ?resolved)))"
    by (rule removeRootless_distinct)
  show ?thesis
  proof (cases installed)
    case True
    with d show ?thesis by (simp add: buildPrototypePomTree_result)
  next
    case False
    show ?thesis
    proof (cases "executeCmd [] (InstallGavReader, None)")
      case (Inl e)
      with False show ?thesis
        by (simp add: buildPrototypePomTree_result installMavenGavReader_def)
    next
      case (Inr out)
      with False d show ?thesis
        by (simp add: buildPrototypePomTree_result installMavenGavReader_def)
    qed
  qed
qed

theorem buildPrototypePomTree_unique_identities_witness:
  "buildPrototypePomTree (printsLines parentAndChild) decodeGavLine (\<lambda>u. u) True
     [''/w/parent/pom.xml'', ''/w/a/pom.xml'']
     = Inr [PomTree ''g:p:1'' ''/w/parent'' [] [PomTree ''g:a:1'' ''/w/a'' ''g:p:1'' []]]
   \<and> distinct (forestGavs [PomTree ''g:p:1'' ''/w/parent'' [] [PomTree ''g:a:1'' ''/w/a'' ''g:p:1'' []]])"
proof -
  let ?poms = "[''/w/parent/pom.xml'', ''/w/a/pom.xml'']"
  have resolved: "resolvedPoms (printsLines parentAndChild) decodeGavLine (\<lambda>u. u) True ?poms
      = [(''/w/a/pom.xml'', ''g:a:1'', ''g:p:1''), (''/w/parent/pom.xml'', ''g:p:1'', [])]"
    by code_simp
  have d: "distinct (moduleGavs (resolvedPoms (printsLines parentAndChild) decodeGavLine (\<lambda>u. u) True ?poms))"
    unfolding resolved by (simp add: moduleGavs_def)
  have a: "acyclic (parentRelation (resolvedPoms (printsLines parentAndChild) decodeGavLine (\<lambda>u. u) True ?poms))"
  proof -
    have "acyclic ({} :: (string \<times> string) set)" by (simp add: acyclic_def)
    then show ?thesis unfolding resolved by (simp add: parentRelation_def acyclic_insert)
  qed
  have built: "buildPrototypePomTree (printsLines parentAndChild) decodeGavLine (\<lambda>u. u) True ?poms
     = Inr [PomTree ''g:p:1'' ''/w/parent'' [] [PomTree ''g:a:1'' ''/w/a'' ''g:p:1'' []]]"
    by code_simp
  from buildPrototypePomTree_unique_identities [OF d a] built show ?thesis
    by (simp only: sum.case simp_thms)
qed

text \<open>
  C2, as the claim has it, fails. Two descriptors resolve to the module \<open>g:a:1\<close> with the parent
  \<open>g:p:1\<close>, and the descriptor of \<open>g:p:1\<close> is present. The first \<open>g:a:1\<close> is a child of \<open>g:p:1\<close>
  when the second is processed, so the search over the roots does not find it, and the forest
  returned has two nodes with the identity \<open>g:a:1\<close>.
\<close>

theorem buildPrototypePomTree_duplicate_counterexample:
  "buildPrototypePomTree (printsLines sameGavTwice) decodeGavLine (\<lambda>u. u) True
     [''/w/a/pom.xml'', ''/w/b/a/pom.xml'', ''/w/pom.xml'']
     = Inr [PomTree ''g:p:1'' ''/w'' []
             [PomTree ''g:a:1'' ''/w/a'' ''g:p:1'' [], PomTree ''g:a:1'' ''/w/b/a'' ''g:p:1'' []]]
   \<and> \<not> distinct (forestGavs [PomTree ''g:p:1'' ''/w'' []
             [PomTree ''g:a:1'' ''/w/a'' ''g:p:1'' [], PomTree ''g:a:1'' ''/w/b/a'' ''g:p:1'' []]])"
  by code_simp

text \<open>
  C3. With one module whose parent has no descriptor, the sweep removes the placeholder and
  the module is the only root. With two such modules the roots before the sweep are the two
  placeholders; the sweep removes the first at index 0, which moves the second to index 0,
  and goes on at index 1: the second placeholder \<open>g:n:1\<close> stays in the result as a root with
  an empty descriptor directory, and \<open>g:b:1\<close> stays its child.
\<close>

theorem buildPrototypePomTree_sweep_skips:
  "buildPrototypePomTree (printsLines oneAbsentParent) decodeGavLine (\<lambda>u. u) True
     [''/w/a/pom.xml'']
     = Inr [PomTree ''g:a:1'' ''/w/a'' ''g:m:1'' []]
   \<and> buildPrototypePomTree (printsLines twoAbsentParents) decodeGavLine (\<lambda>u. u) True
     [''/w/a/pom.xml'', ''/w/b/pom.xml'']
     = Inr [PomTree ''g:n:1'' [] [] [PomTree ''g:b:1'' ''/w/b'' ''g:n:1'' []],
            PomTree ''g:a:1'' ''/w/a'' ''g:m:1'' []]"
  by code_simp

end
